theory Spec2Isabelle
  imports Main "HOL-Library.Word"
begin

unbundle bit_operations_syntax

section \<open>Kernel types (include/kernel/types.hpp)\<close>

text \<open>
  The identifier types are \<^verbatim>\<open>uint32_t\<close>, so they are 32-bit words and every
  \<^verbatim>\<open>++\<close> on them wraps. \<^verbatim>\<open>size_t\<close> and \<^verbatim>\<open>uint64_t\<close> are 64-bit words
  (the LP64 data model).
\<close>

type_synonym TaskId = "32 word"
type_synonym PageNumber = "32 word"
type_synonym FrameNumber = "32 word"
type_synonym MessageId = "32 word"
type_synonym byte = "8 word"
type_synonym size_t = "64 word"

definition INVALID_TASK_ID :: TaskId where
  "INVALID_TASK_ID = 0xFFFFFFFF"

definition PAGE_SIZE :: nat where
  "PAGE_SIZE = 4096"

definition TIME_QUANTUM_MS :: "32 word" where
  "TIME_QUANTUM_MS = 100"

datatype TaskState = Created | Ready | Running | Blocked | Waiting | Terminated

datatype TaskPriority = Idle | Low | Normal | High | RealTime

section \<open>IPC manager (include/ipc/ipc.hpp, src/ipc/ipc.cpp)\<close>

text \<open>
  A message is the struct \<^verbatim>\<open>Message\<close> without its \<^verbatim>\<open>timestamp\<close>, which the
  constructor stamps and nothing reads. The mutexes are left out: the model is one
  thread calling the manager.
\<close>

definition MAX_MESSAGE_SIZE :: nat where
  "MAX_MESSAGE_SIZE = 4096"

datatype MessageType = Data | Signal | Request | Response | Notification

record Message =
  msg_id :: MessageId
  senderId :: TaskId
  receiverId :: TaskId
  msg_type :: MessageType
  payload :: "byte list"
  isBlocking :: bool

definition Message_new :: "MessageId \<Rightarrow> TaskId \<Rightarrow> TaskId \<Rightarrow> MessageType \<Rightarrow> Message" where
  "Message_new i sender receiver t =
     \<lparr>msg_id = i, senderId = sender, receiverId = receiver, msg_type = t,
      payload = [], isBlocking = False\<rparr>"

text \<open>
  \<^verbatim>\<open>setPayload(data, size)\<close>: \<open>buf\<close> is the caller's buffer behind \<^verbatim>\<open>data\<close>, which
  holds at least \<open>n\<close> bytes (the \<^verbatim>\<open>memcpy\<close> reads \<open>n\<close> of them). A size above the
  limit leaves the payload as it was.
\<close>

definition setPayload :: "Message \<Rightarrow> byte list \<Rightarrow> nat \<Rightarrow> Message" where
  "setPayload msg buf n =
     (if n \<le> MAX_MESSAGE_SIZE then msg\<lparr>payload := take n buf\<rparr> else msg)"

record MessageQueue =
  owner :: TaskId
  messages :: "Message list"

definition MessageQueue_new :: "TaskId \<Rightarrow> MessageQueue" where
  "MessageQueue_new t = \<lparr>owner = t, messages = []\<rparr>"

definition enqueue :: "MessageQueue \<Rightarrow> Message \<Rightarrow> MessageQueue" where
  "enqueue q msg = q\<lparr>messages := messages q @ [msg]\<rparr>"

definition dequeue :: "MessageQueue \<Rightarrow> Message option \<times> MessageQueue" where
  "dequeue q =
     (case messages q of
        [] \<Rightarrow> (None, q)
      | m # ms \<Rightarrow> (Some m, q\<lparr>messages := ms\<rparr>))"


record IPCManager =
  messageQueues :: "TaskId \<rightharpoonup> MessageQueue"
  nextMessageId :: MessageId
  totalMessagesSent :: "64 word"
  totalMessagesReceived :: "64 word"

definition IPCManager_new :: IPCManager where
  "IPCManager_new =
     \<lparr>messageQueues = Map.empty, nextMessageId = 1,
      totalMessagesSent = 0, totalMessagesReceived = 0\<rparr>"

definition registerTask :: "IPCManager \<Rightarrow> TaskId \<Rightarrow> bool \<times> IPCManager" where
  "registerTask s taskId =
     (case messageQueues s taskId of
        Some q \<Rightarrow> (False, s)
      | None \<Rightarrow>
          (True, s\<lparr>messageQueues := (messageQueues s)(taskId \<mapsto> MessageQueue_new taskId)\<rparr>))"

definition unregisterTask :: "IPCManager \<Rightarrow> TaskId \<Rightarrow> bool \<times> IPCManager" where
  "unregisterTask s taskId =
     (case messageQueues s taskId of
        None \<Rightarrow> (False, s)
      | Some q \<Rightarrow> (True, s\<lparr>messageQueues := (messageQueues s)(taskId := None)\<rparr>))"

text \<open>
  \<^verbatim>\<open>sendMessage(sender, receiver, data, size, type, blocking)\<close>: \<open>data\<close> is \<open>None\<close>
  for a null pointer and the caller's buffer otherwise. The result is the returned
  message id and the manager afterwards.
\<close>

definition sendMessage ::
  "IPCManager \<Rightarrow> TaskId \<Rightarrow> TaskId \<Rightarrow> byte list option \<Rightarrow> nat \<Rightarrow> MessageType \<Rightarrow> bool
     \<Rightarrow> MessageId \<times> IPCManager" where
  "sendMessage s sender receiver data n t blocking =
     (case messageQueues s receiver of
        None \<Rightarrow> (0, s)
      | Some q \<Rightarrow>
          (let i = nextMessageId s;
               msg = (Message_new i sender receiver t)\<lparr>isBlocking := blocking\<rparr>;
               msg' = (case data of
                         None \<Rightarrow> msg
                       | Some buf \<Rightarrow> if n > 0 then setPayload msg buf n else msg)
           in (i, s\<lparr>messageQueues := (messageQueues s)(receiver \<mapsto> enqueue q msg'),
                    nextMessageId := i + 1,
                    totalMessagesSent := totalMessagesSent s + 1\<rparr>)))"

definition sendAsync ::
  "IPCManager \<Rightarrow> TaskId \<Rightarrow> TaskId \<Rightarrow> byte list option \<Rightarrow> nat \<Rightarrow> MessageType
     \<Rightarrow> MessageId \<times> IPCManager" where
  "sendAsync s sender receiver data n t = sendMessage s sender receiver data n t False"

definition receiveMessage ::
  "IPCManager \<Rightarrow> TaskId \<Rightarrow> bool \<Rightarrow> Message option \<times> IPCManager" where
  "receiveMessage s receiver blocking =
     (case messageQueues s receiver of
        None \<Rightarrow> (None, s)
      | Some q \<Rightarrow>
          (case dequeue q of
             (None, q') \<Rightarrow> (None, s)
           | (Some m, q') \<Rightarrow>
               (Some m, s\<lparr>messageQueues := (messageQueues s)(receiver \<mapsto> q'),
                         totalMessagesReceived := totalMessagesReceived s + 1\<rparr>)))"


definition hasMessages :: "IPCManager \<Rightarrow> TaskId \<Rightarrow> bool" where
  "hasMessages s taskId =
     (case messageQueues s taskId of None \<Rightarrow> False | Some q \<Rightarrow> messages q \<noteq> [])"

definition getMessageCount :: "IPCManager \<Rightarrow> TaskId \<Rightarrow> nat" where
  "getMessageCount s taskId =
     (case messageQueues s taskId of None \<Rightarrow> 0 | Some q \<Rightarrow> length (messages q))"




subsection \<open>Predicates and scenarios of the IPC manager\<close>


text \<open>Scenario S6: a new manager, tasks 1 and 2 registered, a timeout of 50 ms.\<close>

definition S6_registered :: IPCManager where
  "S6_registered = snd (registerTask (snd (registerTask IPCManager_new 1)) 2)"

text \<open>
  The id counter is a \<^verbatim>\<open>uint32_t\<close>. One exchange is a send from task 1 to task 2
  and the receive that takes the message out again; after \<open>k\<close> exchanges the counter
  has advanced by \<open>k\<close> modulo \<open>2 ^ 32\<close> and the mailbox is empty again.
\<close>

fun exchanges :: "nat \<Rightarrow> IPCManager \<Rightarrow> IPCManager" where
  "exchanges 0 s = s"
| "exchanges (Suc k) s =
     exchanges k (snd (receiveMessage (snd (sendMessage s 1 2 None 0 Data False)) 2 False))"




section \<open>Scheduler (include/scheduler, src/scheduler/scheduler.cpp)\<close>

text \<open>
  A task control block with the fields the scheduler reads or writes. The stack, the
  CPU context, the parent and children, the memory and file bookkeeping and the exit
  code are set by the constructor and never touched in scheduler.cpp; the two time
  stamps are written and never read.
\<close>

datatype SchedulerType = RoundRobin | Priority

record TaskControlBlock =
  tcb_id :: TaskId
  name :: string
  state :: TaskState
  priority :: TaskPriority
  cpuTimeMs :: "64 word"
  timeSliceRemaining :: "32 word"

definition TaskControlBlock_new :: "TaskId \<Rightarrow> string \<Rightarrow> TaskPriority \<Rightarrow> TaskControlBlock" where
  "TaskControlBlock_new taskId taskName prio =
     \<lparr>tcb_id = taskId, name = taskName, state = Created, priority = prio,
      cpuTimeMs = 0, timeSliceRemaining = TIME_QUANTUM_MS\<rparr>"

text \<open>
  The scheduler object. \<^verbatim>\<open>tasks_\<close> is looked up by id only; \<^verbatim>\<open>readyQueue_\<close> is a
  deque of ids; \<^verbatim>\<open>priorityQueues_\<close> is an ordered map from priority to deque, where a
  key is absent until \<^verbatim>\<open>operator[]\<close> creates it. \<^verbatim>\<open>taskFunctions_\<close> is stored and
  never called.
\<close>

record Scheduler =
  sched_type :: SchedulerType
  nextTaskId :: TaskId
  currentTaskId :: TaskId
  tasks :: "TaskId \<rightharpoonup> TaskControlBlock"
  readyQueue :: "TaskId list"
  priorityQueues :: "TaskPriority \<rightharpoonup> TaskId list"
  tickCount :: "64 word"
  schedulerRunning :: bool

definition Scheduler_new :: "SchedulerType \<Rightarrow> Scheduler" where
  "Scheduler_new t =
     \<lparr>sched_type = t, nextTaskId = 1, currentTaskId = INVALID_TASK_ID, tasks = Map.empty,
      readyQueue = [], priorityQueues = Map.empty, tickCount = 0, schedulerRunning = False\<rparr>"

text \<open>A dereferenced null pointer is the one way a scheduler call can fail.\<close>

datatype fault = NullPointer

definition getCurrentTask :: "Scheduler \<Rightarrow> TaskControlBlock option" where
  "getCurrentTask s =
     (if currentTaskId s = INVALID_TASK_ID then None else tasks s (currentTaskId s))"

definition getTask :: "Scheduler \<Rightarrow> TaskId \<Rightarrow> TaskControlBlock option" where
  "getTask s i = tasks s i"

definition selectRoundRobin :: "Scheduler \<Rightarrow> TaskId" where
  "selectRoundRobin s = (case readyQueue s of [] \<Rightarrow> INVALID_TASK_ID | t # ts \<Rightarrow> t)"

text \<open>The loop of \<^verbatim>\<open>selectPriority\<close> over the priorities it still has to visit.\<close>

fun selectFrom :: "TaskPriority list \<Rightarrow> (TaskPriority \<rightharpoonup> TaskId list) \<Rightarrow> TaskId" where
  "selectFrom [] pq = INVALID_TASK_ID"
| "selectFrom (p # ps) pq =
     (case pq p of
        None \<Rightarrow> selectFrom ps pq
      | Some [] \<Rightarrow> selectFrom ps pq
      | Some (t # ts) \<Rightarrow> t)"

definition selectPriority :: "Scheduler \<Rightarrow> TaskId" where
  "selectPriority s = selectFrom [RealTime, High, Normal, Low, Idle] (priorityQueues s)"

definition selectNextTask :: "Scheduler \<Rightarrow> TaskId" where
  "selectNextTask s =
     (if sched_type s = RoundRobin then selectRoundRobin s else selectPriority s)"

definition addToReadyQueue :: "Scheduler \<Rightarrow> TaskId \<Rightarrow> Scheduler" where
  "addToReadyQueue s i =
     (case tasks s i of
        None \<Rightarrow> s
      | Some tcb \<Rightarrow>
          if sched_type s = RoundRobin then
            (if i \<in> set (readyQueue s) then s else s\<lparr>readyQueue := readyQueue s @ [i]\<rparr>)
          else
            (let queue = (case priorityQueues s (priority tcb) of None \<Rightarrow> [] | Some q \<Rightarrow> q)
             in s\<lparr>priorityQueues := (priorityQueues s)(priority tcb \<mapsto>
                    (if i \<in> set queue then queue else queue @ [i]))\<rparr>))"

text \<open>
  The loop of \<^verbatim>\<open>removeFromReadyQueue\<close> over the map in key order: the first queue
  that holds the id loses its first occurrence, and the loop breaks.
\<close>

fun removeFromQueues ::
  "TaskPriority list \<Rightarrow> (TaskPriority \<rightharpoonup> TaskId list) \<Rightarrow> TaskId \<Rightarrow> (TaskPriority \<rightharpoonup> TaskId list)" where
  "removeFromQueues [] pq i = pq"
| "removeFromQueues (p # ps) pq i =
     (case pq p of
        None \<Rightarrow> removeFromQueues ps pq i
      | Some q \<Rightarrow> if i \<in> set q then pq(p \<mapsto> remove1 i q) else removeFromQueues ps pq i)"

definition removeFromReadyQueue :: "Scheduler \<Rightarrow> TaskId \<Rightarrow> Scheduler" where
  "removeFromReadyQueue s i =
     (if sched_type s = RoundRobin then s\<lparr>readyQueue := remove1 i (readyQueue s)\<rparr>
      else s\<lparr>priorityQueues :=
               removeFromQueues [Idle, Low, Normal, High, RealTime] (priorityQueues s) i\<rparr>)"

definition getReadyQueueSize :: "Scheduler \<Rightarrow> nat" where
  "getReadyQueueSize s =
     (if sched_type s = RoundRobin then length (readyQueue s)
      else sum_list (map (\<lambda>p. case priorityQueues s p of None \<Rightarrow> 0 | Some q \<Rightarrow> length q)
                         [Idle, Low, Normal, High, RealTime]))"

text \<open>
  \<^verbatim>\<open>schedule()\<close>. The two pointers are fetched first; \<^verbatim>\<open>contextSwitch\<close> only logs.
  The selected id differs from the current one where the pointers are used, so the
  selected block is the same before and after the current task is demoted.
\<close>

definition schedule :: "Scheduler \<Rightarrow> fault + Scheduler" where
  "schedule s =
     (let nextTask = selectNextTask s in
      if nextTask = INVALID_TASK_ID then Inr s
      else if nextTask = currentTaskId s then Inr s
      else
        (let s1 = (case getCurrentTask s of
                     None \<Rightarrow> s
                   | Some currentTcb \<Rightarrow>
                       if state currentTcb = Running then
                         addToReadyQueue
                           (s\<lparr>tasks := (tasks s)(currentTaskId s \<mapsto> currentTcb\<lparr>state := Ready\<rparr>)\<rparr>)
                           (currentTaskId s)
                       else s)
         in case getTask s1 nextTask of
              None \<Rightarrow> Inl NullPointer
            | Some nextTcb \<Rightarrow>
                Inr (removeFromReadyQueue
                       (s1\<lparr>currentTaskId := nextTask,
                           tasks := (tasks s1)(nextTask \<mapsto>
                             nextTcb\<lparr>state := Running, timeSliceRemaining := TIME_QUANTUM_MS\<rparr>)\<rparr>)
                       nextTask)))"

definition createTask :: "Scheduler \<Rightarrow> string \<Rightarrow> TaskPriority \<Rightarrow> TaskId \<times> Scheduler" where
  "createTask s taskName prio =
     (let i = nextTaskId s;
          tcb = (TaskControlBlock_new i taskName prio)\<lparr>state := Ready\<rparr>
      in (i, addToReadyQueue (s\<lparr>nextTaskId := i + 1, tasks := (tasks s)(i \<mapsto> tcb)\<rparr>) i))"

definition terminateTask :: "Scheduler \<Rightarrow> TaskId \<Rightarrow> fault + bool \<times> Scheduler" where
  "terminateTask s i =
     (case tasks s i of
        None \<Rightarrow> Inr (False, s)
      | Some tcb \<Rightarrow>
          (let s1 = removeFromReadyQueue (s\<lparr>tasks := (tasks s)(i \<mapsto> tcb\<lparr>state := Terminated\<rparr>)\<rparr>) i
           in if currentTaskId s1 = i then
                (case schedule (s1\<lparr>currentTaskId := INVALID_TASK_ID\<rparr>) of
                   Inl f \<Rightarrow> Inl f
                 | Inr s2 \<Rightarrow> Inr (True, s2))
              else Inr (True, s1)))"


definition unblockTask :: "Scheduler \<Rightarrow> TaskId \<Rightarrow> bool \<times> Scheduler" where
  "unblockTask s i =
     (case tasks s i of
        None \<Rightarrow> (False, s)
      | Some tcb \<Rightarrow>
          if state tcb \<noteq> Blocked then (False, s)
          else (True, addToReadyQueue (s\<lparr>tasks := (tasks s)(i \<mapsto> tcb\<lparr>state := Ready\<rparr>)\<rparr>) i))"

definition tick :: "Scheduler \<Rightarrow> fault + Scheduler" where
  "tick s =
     (let s1 = s\<lparr>tickCount := tickCount s + 1\<rparr> in
      case getCurrentTask s1 of
        None \<Rightarrow> schedule s1
      | Some current \<Rightarrow>
          (let current' = (if timeSliceRemaining current > 0
                           then current\<lparr>timeSliceRemaining := timeSliceRemaining current - 1,
                                        cpuTimeMs := cpuTimeMs current + 1\<rparr>
                           else current);
               s2 = s1\<lparr>tasks := (tasks s1)(currentTaskId s1 \<mapsto> current')\<rparr>
           in if timeSliceRemaining current' = 0 then schedule s2 else Inr s2))"

definition yield :: "Scheduler \<Rightarrow> fault + Scheduler" where
  "yield s =
     (case getCurrentTask s of
        None \<Rightarrow> Inr s
      | Some current \<Rightarrow>
          schedule (s\<lparr>tasks := (tasks s)(currentTaskId s \<mapsto> current\<lparr>timeSliceRemaining := 0\<rparr>)\<rparr>))"

definition setSchedulerType :: "Scheduler \<Rightarrow> SchedulerType \<Rightarrow> Scheduler" where
  "setSchedulerType s t = (if sched_type s \<noteq> t then s\<lparr>sched_type := t\<rparr> else s)"

subsection \<open>Scenarios of the scheduler\<close>

text \<open>A scheduler call after one that may have failed.\<close>

definition andThen :: "fault + Scheduler \<Rightarrow> (Scheduler \<Rightarrow> fault + Scheduler) \<Rightarrow> fault + Scheduler" where
  "andThen r f = (case r of Inl e \<Rightarrow> Inl e | Inr s \<Rightarrow> f s)"

text \<open>
  Scenario S1 (and \<^verbatim>\<open>test_round_robin\<close>): three Normal tasks created in order on a
  new round-robin scheduler, then \<^verbatim>\<open>schedule\<close> and three \<^verbatim>\<open>yield\<close>s.
\<close>

definition S1_created :: Scheduler where
  "S1_created =
     snd (createTask (snd (createTask (snd (createTask (Scheduler_new RoundRobin)
       ''task1'' Normal)) ''task2'' Normal)) ''task3'' Normal)"

definition S1_scheduled :: "fault + Scheduler" where
  "S1_scheduled = schedule S1_created"

definition S1_yield1 :: "fault + Scheduler" where
  "S1_yield1 = andThen S1_scheduled yield"

definition S1_yield2 :: "fault + Scheduler" where
  "S1_yield2 = andThen S1_yield1 yield"

definition S1_yield3 :: "fault + Scheduler" where
  "S1_yield3 = andThen S1_yield2 yield"

text \<open>The id of the task \<^verbatim>\<open>getCurrentTask\<close> returns, and that task's state.\<close>

definition currentId :: "Scheduler \<Rightarrow> TaskId option" where
  "currentId s = map_option tcb_id (getCurrentTask s)"

definition stateOf :: "Scheduler \<Rightarrow> TaskId \<Rightarrow> TaskState option" where
  "stateOf s i = map_option state (getTask s i)"

text \<open>
  The ready structure that the discipline \<open>t\<close> reads holds no id: the FIFO for
  round-robin, the per-priority FIFOs for priority.
\<close>

definition structure_empty :: "Scheduler \<Rightarrow> SchedulerType \<Rightarrow> bool" where
  "structure_empty s t =
     (case t of
        RoundRobin \<Rightarrow> readyQueue s = []
      | Priority \<Rightarrow>
          list_all (\<lambda>p. case priorityQueues s p of None \<Rightarrow> True | Some q \<Rightarrow> q = [])
                   [Idle, Low, Normal, High, RealTime])"

text \<open>One Normal task created on a new round-robin scheduler.\<close>

definition C1_one_ready :: Scheduler where
  "C1_one_ready = snd (createTask (Scheduler_new RoundRobin) ''task1'' Normal)"


section \<open>Memory manager (include/mm/memory_manager.hpp, src/mm/memory_manager.cpp)\<close>

definition TOTAL_PHYSICAL_FRAMES :: nat where
  "TOTAL_PHYSICAL_FRAMES = 1024"

text \<open>\<^verbatim>\<open>enum class MemoryProtection : uint8_t\<close>, a bit field.\<close>

type_synonym MemoryProtection = "8 word"

definition ReadWrite :: MemoryProtection where
  "ReadWrite = 1 OR 2"

record PageTableEntry =
  frameNumber :: FrameNumber
  present :: bool
  dirty :: bool
  accessed :: bool
  protection :: MemoryProtection

text \<open>
  \<^verbatim>\<open>std::map<PageNumber, PageTableEntry>\<close> as the list of its entries in key order.
  \<open>entries_put\<close> is the assignment \<^verbatim>\<open>entries[k] = v\<close> and \<open>entries_erase\<close> is
  \<^verbatim>\<open>erase\<close> of the entry \<^verbatim>\<open>find(k)\<close> returned; \<open>map_of\<close> is \<^verbatim>\<open>find\<close>.
\<close>

fun entries_put ::
  "PageNumber \<Rightarrow> PageTableEntry \<Rightarrow> (PageNumber \<times> PageTableEntry) list
     \<Rightarrow> (PageNumber \<times> PageTableEntry) list" where
  "entries_put k v [] = [(k, v)]"
| "entries_put k v ((k', v') # es) =
     (if k = k' then (k, v) # es
      else if k < k' then (k, v) # (k', v') # es
      else (k', v') # entries_put k v es)"

fun entries_erase ::
  "PageNumber \<Rightarrow> (PageNumber \<times> PageTableEntry) list \<Rightarrow> (PageNumber \<times> PageTableEntry) list" where
  "entries_erase k [] = []"
| "entries_erase k ((k', v') # es) = (if k = k' then es else (k', v') # entries_erase k es)"

record PageTable =
  entries :: "(PageNumber \<times> PageTableEntry) list"
  ownerId :: TaskId

text \<open>
  The manager. \<^verbatim>\<open>std::bitset<1024>\<close> is a 1024-bit word. The bytes of
  \<^verbatim>\<open>physicalMemory_\<close> are never read or written by the manager; a physical address
  is its offset from \<^verbatim>\<open>physicalMemory_.data()\<close>.
\<close>

record MemoryManager =
  frameAllocationMap :: "1024 word"
  pageTables :: "TaskId \<rightharpoonup> PageTable"
  totalAllocatedPages :: size_t
  pageFaultCount :: size_t

definition MemoryManager_new :: MemoryManager where
  "MemoryManager_new =
     \<lparr>frameAllocationMap = 0, pageTables = Map.empty, totalAllocatedPages = 0,
      pageFaultCount = 0\<rparr>"

text \<open>
  The scan of \<^verbatim>\<open>allocateFrame\<close> from index \<open>i\<close>. The index stays below 1024, so
  the \<^verbatim>\<open>uint32_t\<close> counter never wraps.
\<close>

function allocateFrame_from :: "nat \<Rightarrow> 1024 word \<Rightarrow> (FrameNumber \<times> 1024 word) option" where
  "allocateFrame_from i m =
     (if i < TOTAL_PHYSICAL_FRAMES then
        (if \<not> bit m i then Some (of_nat i, set_bit i m)
         else allocateFrame_from (i + 1) m)
      else None)"
  by pat_completeness auto
termination
  by (relation "measure (\<lambda>(i, m). TOTAL_PHYSICAL_FRAMES - i)") auto

declare allocateFrame_from.simps [simp del]

definition allocateFrame :: "1024 word \<Rightarrow> (FrameNumber \<times> 1024 word) option" where
  "allocateFrame m = allocateFrame_from 0 m"

definition freeFrame :: "1024 word \<Rightarrow> FrameNumber \<Rightarrow> bool \<times> 1024 word" where
  "freeFrame m frame =
     (if unat frame \<ge> TOTAL_PHYSICAL_FRAMES then (False, m)
      else (True, unset_bit (unat frame) m))"

definition isFrameFree :: "1024 word \<Rightarrow> FrameNumber \<Rightarrow> bool" where
  "isFrameFree m frame =
     (if unat frame \<ge> TOTAL_PHYSICAL_FRAMES then False else \<not> bit m (unat frame))"

text \<open>\<^verbatim>\<open>bitset::count()\<close>: the number of bits set.\<close>

definition bitset_count :: "1024 word \<Rightarrow> nat" where
  "bitset_count m = length (filter (bit m) [0..<TOTAL_PHYSICAL_FRAMES])"

definition getFreeFrameCount :: "MemoryManager \<Rightarrow> nat" where
  "getFreeFrameCount s = TOTAL_PHYSICAL_FRAMES - bitset_count (frameAllocationMap s)"

definition getUsedFrameCount :: "MemoryManager \<Rightarrow> nat" where
  "getUsedFrameCount s = bitset_count (frameAllocationMap s)"

definition createAddressSpace :: "MemoryManager \<Rightarrow> TaskId \<Rightarrow> bool \<times> MemoryManager" where
  "createAddressSpace s taskId =
     (case pageTables s taskId of
        Some pt \<Rightarrow> (False, s)
      | None \<Rightarrow>
          (True, s\<lparr>pageTables := (pageTables s)(taskId \<mapsto> \<lparr>entries = [], ownerId = taskId\<rparr>)\<rparr>))"

text \<open>The loop of \<^verbatim>\<open>destroyAddressSpace\<close> over the entries, on the frame map.\<close>

fun freeFrames :: "(PageNumber \<times> PageTableEntry) list \<Rightarrow> 1024 word \<Rightarrow> 1024 word" where
  "freeFrames [] m = m"
| "freeFrames ((pageNum, entry) # es) m =
     freeFrames es (if present entry then snd (freeFrame m (frameNumber entry)) else m)"

definition destroyAddressSpace :: "MemoryManager \<Rightarrow> TaskId \<Rightarrow> bool \<times> MemoryManager" where
  "destroyAddressSpace s taskId =
     (case pageTables s taskId of
        None \<Rightarrow> (False, s)
      | Some pt \<Rightarrow>
          (True, s\<lparr>frameAllocationMap := freeFrames (entries pt) (frameAllocationMap s),
                   pageTables := (pageTables s)(taskId := None)\<rparr>))"

definition allocatePage ::
  "MemoryManager \<Rightarrow> TaskId \<Rightarrow> PageNumber \<Rightarrow> MemoryProtection \<Rightarrow> nat option \<times> MemoryManager" where
  "allocatePage s taskId virtualPage prot =
     (case pageTables s taskId of
        None \<Rightarrow> (None, s)
      | Some pageTable \<Rightarrow>
          if (case map_of (entries pageTable) virtualPage of
                None \<Rightarrow> False
              | Some e \<Rightarrow> present e)
          then (None, s)
          else
            (case allocateFrame (frameAllocationMap s) of
               None \<Rightarrow> (None, s)
             | Some (frame, m') \<Rightarrow>
                 (let entry = \<lparr>frameNumber = frame, present = True, dirty = False,
                               accessed = False, protection = prot\<rparr>
                  in (Some (unat frame * PAGE_SIZE),
                      s\<lparr>frameAllocationMap := m',
                        pageTables := (pageTables s)(taskId \<mapsto>
                          pageTable\<lparr>entries := entries_put virtualPage entry (entries pageTable)\<rparr>),
                        totalAllocatedPages := totalAllocatedPages s + 1\<rparr>))))"

definition freePage :: "MemoryManager \<Rightarrow> TaskId \<Rightarrow> PageNumber \<Rightarrow> bool \<times> MemoryManager" where
  "freePage s taskId virtualPage =
     (case pageTables s taskId of
        None \<Rightarrow> (False, s)
      | Some pageTable \<Rightarrow>
          (case map_of (entries pageTable) virtualPage of
             None \<Rightarrow> (False, s)
           | Some e \<Rightarrow>
               if \<not> present e then (False, s)
               else
                 (True,
                  s\<lparr>frameAllocationMap := snd (freeFrame (frameAllocationMap s) (frameNumber e)),
                    pageTables := (pageTables s)(taskId \<mapsto>
                      pageTable\<lparr>entries := entries_erase virtualPage (entries pageTable)\<rparr>),
                    totalAllocatedPages := totalAllocatedPages s - 1\<rparr>)))"

definition translateAddress ::
  "MemoryManager \<Rightarrow> TaskId \<Rightarrow> PageNumber \<Rightarrow> FrameNumber option \<times> MemoryManager" where
  "translateAddress s taskId virtualPage =
     (case pageTables s taskId of
        None \<Rightarrow> (None, s)
      | Some pageTable \<Rightarrow>
          (case map_of (entries pageTable) virtualPage of
             None \<Rightarrow> (None, s)
           | Some e \<Rightarrow>
               if \<not> present e then (None, s)
               else
                 (Some (frameNumber e),
                  s\<lparr>pageTables := (pageTables s)(taskId \<mapsto>
                      pageTable\<lparr>entries :=
                        entries_put virtualPage (e\<lparr>accessed := True\<rparr>) (entries pageTable)\<rparr>)\<rparr>)))"

definition handlePageFault :: "MemoryManager \<Rightarrow> TaskId \<Rightarrow> PageNumber \<Rightarrow> bool \<times> MemoryManager" where
  "handlePageFault s taskId virtualPage =
     (case allocatePage (s\<lparr>pageFaultCount := pageFaultCount s + 1\<rparr>) taskId virtualPage ReadWrite of
        (result, s') \<Rightarrow> (result \<noteq> None, s'))"

definition setProtection ::
  "MemoryManager \<Rightarrow> TaskId \<Rightarrow> PageNumber \<Rightarrow> MemoryProtection \<Rightarrow> bool \<times> MemoryManager" where
  "setProtection s taskId virtualPage prot =
     (case pageTables s taskId of
        None \<Rightarrow> (False, s)
      | Some pageTable \<Rightarrow>
          (case map_of (entries pageTable) virtualPage of
             None \<Rightarrow> (False, s)
           | Some e \<Rightarrow>
               (True,
                s\<lparr>pageTables := (pageTables s)(taskId \<mapsto>
                    pageTable\<lparr>entries :=
                      entries_put virtualPage (e\<lparr>protection := prot\<rparr>) (entries pageTable)\<rparr>)\<rparr>)))"

definition getProtection ::
  "MemoryManager \<Rightarrow> TaskId \<Rightarrow> PageNumber \<Rightarrow> MemoryProtection option" where
  "getProtection s taskId virtualPage =
     (case pageTables s taskId of
        None \<Rightarrow> None
      | Some pageTable \<Rightarrow>
          (case map_of (entries pageTable) virtualPage of
             None \<Rightarrow> None
           | Some e \<Rightarrow> Some (protection e)))"

definition getTaskMemoryUsage :: "MemoryManager \<Rightarrow> TaskId \<Rightarrow> nat" where
  "getTaskMemoryUsage s taskId =
     (case pageTables s taskId of
        None \<Rightarrow> 0
      | Some pageTable \<Rightarrow> length (filter (\<lambda>(p, e). present e) (entries pageTable)) * PAGE_SIZE)"

subsection \<open>Calls, runs and page-table entries of the memory manager\<close>

text \<open>A call of one of the eight public operations, and the manager after it.\<close>

datatype mm_call =
    CreateAddressSpace TaskId
  | DestroyAddressSpace TaskId
  | AllocatePage TaskId PageNumber MemoryProtection
  | FreePage TaskId PageNumber
  | TranslateAddress TaskId PageNumber
  | HandlePageFault TaskId PageNumber
  | SetProtection TaskId PageNumber MemoryProtection
  | GetProtection TaskId PageNumber

fun mm_step :: "MemoryManager \<Rightarrow> mm_call \<Rightarrow> MemoryManager" where
  "mm_step s (CreateAddressSpace t) = snd (createAddressSpace s t)"
| "mm_step s (DestroyAddressSpace t) = snd (destroyAddressSpace s t)"
| "mm_step s (AllocatePage t p prot) = snd (allocatePage s t p prot)"
| "mm_step s (FreePage t p) = snd (freePage s t p)"
| "mm_step s (TranslateAddress t p) = snd (translateAddress s t p)"
| "mm_step s (HandlePageFault t p) = snd (handlePageFault s t p)"
| "mm_step s (SetProtection t p prot) = snd (setProtection s t p prot)"
| "mm_step s (GetProtection t p) = s"

text \<open>The manager reached from a new one by a sequence of calls.\<close>

definition mm_run :: "mm_call list \<Rightarrow> MemoryManager" where
  "mm_run cs = foldl mm_step MemoryManager_new cs"

text \<open>The entry of task \<open>t\<close> for page \<open>p\<close>, if there is one.\<close>

definition pte_at :: "MemoryManager \<Rightarrow> TaskId \<times> PageNumber \<Rightarrow> PageTableEntry option" where
  "pte_at s tp =
     (case pageTables s (fst tp) of
        None \<Rightarrow> None
      | Some pt \<Rightarrow> map_of (entries pt) (snd tp))"

text \<open>The entry at \<open>tp\<close> is present and its frame number is \<open>f\<close>.\<close>

definition references :: "MemoryManager \<Rightarrow> FrameNumber \<Rightarrow> TaskId \<times> PageNumber \<Rightarrow> bool" where
  "references s f tp =
     (case pte_at s tp of
        None \<Rightarrow> False
      | Some e \<Rightarrow> frameNumber e = f \<and> present e)"

text \<open>The frame index a present entry at \<open>tp\<close> holds.\<close>

definition frame_of :: "MemoryManager \<Rightarrow> TaskId \<times> PageNumber \<Rightarrow> nat option" where
  "frame_of s tp =
     (case pte_at s tp of
        None \<Rightarrow> None
      | Some e \<Rightarrow> if present e then Some (unat (frameNumber e)) else None)"

text \<open>
  The invariant behind the frame map: every page table is in key order without
  repeated keys; a present entry holds a frame below 1024 whose bit is set; two
  present entries hold different frames; every set bit is the frame of a present
  entry.
\<close>

definition tables_sorted :: "MemoryManager \<Rightarrow> bool" where
  "tables_sorted s = (\<forall>t pt. pageTables s t = Some pt \<longrightarrow> sorted_wrt (<) (map fst (entries pt)))"

definition frames_ok :: "1024 word \<Rightarrow> (TaskId \<times> PageNumber \<Rightarrow> nat option) \<Rightarrow> bool" where
  "frames_ok m fo =
     ((\<forall>tp k. fo tp = Some k \<longrightarrow> k < TOTAL_PHYSICAL_FRAMES \<and> bit m k) \<and>
      (\<forall>tp tp' k. fo tp = Some k \<and> fo tp' = Some k \<longrightarrow> tp = tp') \<and>
      (\<forall>i. bit m i \<longrightarrow> (\<exists>tp. fo tp = Some i)))"

definition mm_inv :: "MemoryManager \<Rightarrow> bool" where
  "mm_inv s = (tables_sorted s \<and> frames_ok (frameAllocationMap s) (frame_of s))"

text \<open>Scenario S3: a new manager with an address space for task 1.\<close>

definition S3_space :: MemoryManager where
  "S3_space = snd (createAddressSpace MemoryManager_new 1)"

section \<open>Heap allocator (include/mm/memory_manager.hpp, src/mm/memory_manager.cpp)\<close>

text \<open>
  An address is a byte offset from \<^verbatim>\<open>heap_.data()\<close>; a pointer is \<open>None\<close> when null.
  Sizes are \<^verbatim>\<open>size_t\<close> and wrap. \<^verbatim>\<open>sizeof(BlockHeader)\<close> is 32 bytes under LP64: a
  \<^verbatim>\<open>size_t\<close>, a \<^verbatim>\<open>bool\<close> padded to 8 bytes and two pointers.
\<close>

definition HEADER_SIZE :: nat where
  "HEADER_SIZE = 32"

record BlockHeader =
  bsize :: size_t
  isFree :: bool
  bnext :: "nat option"
  bprev :: "nat option"

text \<open>
  The arena is read in two views: \<open>headers\<close> is the \<^verbatim>\<open>BlockHeader\<close> found at an
  address, and \<open>bytes\<close> is the payload byte at an address. Every address holds some
  header, as reading any arena address through a \<^verbatim>\<open>BlockHeader*\<close> does; a header
  that is unlinked stays where it was. A header occupies the \<open>HEADER_SIZE\<close> bytes
  from its address on, so a byte copy into these bytes changes the header (see
  \<open>clobber\<close>).
\<close>

record HeapAllocator =
  headers :: "nat \<Rightarrow> BlockHeader"
  bytes :: "nat \<Rightarrow> byte"
  heapSize :: size_t
  freeList :: "nat option"
  allocatedBytes :: size_t

text \<open>The constructor: a zeroed arena with one free block behind the first header.\<close>

definition HeapAllocator_new :: "size_t \<Rightarrow> HeapAllocator" where
  "HeapAllocator_new n =
     \<lparr>headers = (\<lambda>a. \<lparr>bsize = 0, isFree = False, bnext = None, bprev = None\<rparr>)
                 (0 := \<lparr>bsize = n - of_nat HEADER_SIZE, isFree = True, bnext = None, bprev = None\<rparr>),
      bytes = (\<lambda>a. 0),
      heapSize = n,
      freeList = Some 0,
      allocatedBytes = 0\<rparr>"

text \<open>\<^verbatim>\<open>(size + 7) & ~7\<close> on \<^verbatim>\<open>size_t\<close>.\<close>

definition round8 :: "size_t \<Rightarrow> size_t" where
  "round8 n = (n + 7) AND NOT 7"

text \<open>
  The walk of \<^verbatim>\<open>findFreeBlock\<close> from \<open>current\<close>. It returns the block found
  (\<open>Some (Some b)\<close>) or null (\<open>Some None\<close>); on a cyclic list it does not return,
  which is \<open>None\<close>.
\<close>

partial_function (option) findFreeBlock ::
  "(nat \<Rightarrow> BlockHeader) \<Rightarrow> nat option \<Rightarrow> size_t \<Rightarrow> nat option option" where
  "findFreeBlock hs current n =
     (case current of
        None \<Rightarrow> Some None
      | Some c \<Rightarrow>
          if isFree (hs c) \<and> bsize (hs c) \<ge> n then Some (Some c)
          else findFreeBlock hs (bnext (hs c)) n)"

text \<open>\<^verbatim>\<open>splitBlock(block, size)\<close>, one assignment after the other.\<close>

definition splitBlock :: "HeapAllocator \<Rightarrow> nat \<Rightarrow> size_t \<Rightarrow> HeapAllocator" where
  "splitBlock h block n =
     (let hs = headers h;
          newBlock = block + HEADER_SIZE + unat n;
          hs1 = hs(newBlock :=
                  \<lparr>bsize = bsize (hs block) - n - of_nat HEADER_SIZE, isFree = True,
                   bnext = bnext (hs block), bprev = Some block\<rparr>);
          hs2 = (case bnext (hs1 block) of
                   None \<Rightarrow> hs1
                 | Some nx \<Rightarrow> hs1(nx := (hs1 nx)\<lparr>bprev := Some newBlock\<rparr>));
          hs3 = hs2(block := (hs2 block)\<lparr>bsize := n, bnext := Some newBlock\<rparr>)
      in h\<lparr>headers := hs3\<rparr>)"

definition allocate :: "HeapAllocator \<Rightarrow> size_t \<Rightarrow> (nat option \<times> HeapAllocator) option" where
  "allocate h n0 =
     (if n0 = 0 then Some (None, h)
      else
        (let n = round8 n0 in
         case findFreeBlock (headers h) (freeList h) n of
           None \<Rightarrow> None
         | Some None \<Rightarrow> Some (None, h)
         | Some (Some block) \<Rightarrow>
             (let h1 = (if bsize (headers h block) > n + of_nat HEADER_SIZE + 8
                        then splitBlock h block n else h);
                  h2 = h1\<lparr>headers := (headers h1)(block := (headers h1 block)\<lparr>isFree := False\<rparr>)\<rparr>;
                  h3 = h2\<lparr>allocatedBytes := allocatedBytes h2 + bsize (headers h2 block)\<rparr>
              in Some (Some (block + HEADER_SIZE), h3))))"

text \<open>
  \<^verbatim>\<open>coalesce(block)\<close> is two \<^verbatim>\<open>if\<close> statements, on the arena: the first absorbs
  a free next block into \<open>block\<close>, the second absorbs \<open>block\<close> into a free previous
  block. Each is its assignments, one after the other.
\<close>

definition coalesce_next :: "(nat \<Rightarrow> BlockHeader) \<Rightarrow> nat \<Rightarrow> (nat \<Rightarrow> BlockHeader)" where
  "coalesce_next hs block =
     (case bnext (hs block) of
        None \<Rightarrow> hs
      | Some nx \<Rightarrow>
          if isFree (hs nx) then
            (let a1 = hs(block := (hs block)
                        \<lparr>bsize := bsize (hs block) + of_nat HEADER_SIZE + bsize (hs nx)\<rparr>);
                 a2 = a1(block := (a1 block)\<lparr>bnext := bnext (a1 nx)\<rparr>)
             in case bnext (a2 block) of
                  None \<Rightarrow> a2
                | Some nn \<Rightarrow> a2(nn := (a2 nn)\<lparr>bprev := Some block\<rparr>))
          else hs)"

definition coalesce_prev :: "(nat \<Rightarrow> BlockHeader) \<Rightarrow> nat \<Rightarrow> (nat \<Rightarrow> BlockHeader)" where
  "coalesce_prev hs block =
     (case bprev (hs block) of
        None \<Rightarrow> hs
      | Some pv \<Rightarrow>
          if isFree (hs pv) then
            (let c1 = hs(pv := (hs pv)
                        \<lparr>bsize := bsize (hs pv) + of_nat HEADER_SIZE + bsize (hs block)\<rparr>);
                 c2 = c1(pv := (c1 pv)\<lparr>bnext := bnext (c1 block)\<rparr>)
             in case bnext (c2 block) of
                  None \<Rightarrow> c2
                | Some nn \<Rightarrow> c2(nn := (c2 nn)\<lparr>bprev := bprev (c2 block)\<rparr>))
          else hs)"

definition coalesce :: "HeapAllocator \<Rightarrow> nat \<Rightarrow> HeapAllocator" where
  "coalesce h block = h\<lparr>headers := coalesce_prev (coalesce_next (headers h) block) block\<rparr>"

text \<open>
  \<^verbatim>\<open>free(ptr)\<close>. The header is 32 bytes before a pointer \<^verbatim>\<open>allocate\<close> returned (a
  pointer that is not one is undefined behaviour in the source).
\<close>

definition free :: "HeapAllocator \<Rightarrow> nat option \<Rightarrow> HeapAllocator" where
  "free h ptr =
     (case ptr of
        None \<Rightarrow> h
      | Some p \<Rightarrow>
          (let block = p - HEADER_SIZE in
           if isFree (headers h block) then h
           else coalesce
                  (h\<lparr>headers := (headers h)(block := (headers h block)\<lparr>isFree := True\<rparr>),
                     allocatedBytes := allocatedBytes h - bsize (headers h block)\<rparr>)
                  block))"

text \<open>\<^verbatim>\<open>memcpy(dst, src, n)\<close> on the bytes (the regions do not overlap).\<close>

definition memcpy :: "(nat \<Rightarrow> byte) \<Rightarrow> nat \<Rightarrow> nat \<Rightarrow> nat \<Rightarrow> (nat \<Rightarrow> byte)" where
  "memcpy mem dst src n = (\<lambda>a. if dst \<le> a \<and> a < dst + n then mem (src + (a - dst)) else mem a)"

text \<open>
  What a copy of \<open>n\<close> bytes to \<open>dst\<close> does to the headers: a header at \<open>a\<close>
  occupies the bytes from \<open>a\<close> to \<open>a + HEADER_SIZE\<close>, and when the copy writes one
  of them the header is overwritten. What it reads as afterwards depends on the
  copied bytes and on the layout of \<^verbatim>\<open>BlockHeader\<close>; \<open>junk a\<close> stands for it. A
  copy that stays inside the payload of a block writes no byte of that block's
  header nor of the header behind the payload.
\<close>

definition clobber ::
  "(nat \<Rightarrow> BlockHeader) \<Rightarrow> nat \<Rightarrow> nat \<Rightarrow> (nat \<Rightarrow> BlockHeader) \<Rightarrow> (nat \<Rightarrow> BlockHeader)" where
  "clobber hs dst n junk =
     (\<lambda>a. if 0 < n \<and> a < dst + n \<and> dst < a + HEADER_SIZE then junk a else hs a)"

text \<open>
  \<^verbatim>\<open>reallocate(ptr, newSize)\<close>. The copy is \<^verbatim>\<open>memcpy(newPtr, ptr, block->size)\<close>,
  with the old block's size read after the allocation. Nothing compares this size
  with the size of the new block: the new block is smaller than the old one when the
  rounding of \<open>newSize\<close> wraps (\<open>newSize\<close> above \<open>2 ^ 64 - 8\<close> rounds to 0), and
  the copy then runs over the headers behind the new payload. \<open>junk\<close> is what the
  headers that the copy overwrites read as afterwards.
\<close>

definition reallocate ::
  "HeapAllocator \<Rightarrow> nat option \<Rightarrow> size_t \<Rightarrow> (nat \<Rightarrow> BlockHeader)
     \<Rightarrow> (nat option \<times> HeapAllocator) option" where
  "reallocate h ptr newSize junk =
     (case ptr of
        None \<Rightarrow> allocate h newSize
      | Some p \<Rightarrow>
          if newSize = 0 then Some (None, free h ptr)
          else
            (let block = p - HEADER_SIZE in
             if bsize (headers h block) \<ge> newSize then Some (ptr, h)
             else
               (case allocate h newSize of
                  None \<Rightarrow> None
                | Some (None, h1) \<Rightarrow> Some (None, h1)
                | Some (Some newPtr, h1) \<Rightarrow>
                    (let len = unat (bsize (headers h1 block));
                         h2 = h1\<lparr>bytes := memcpy (bytes h1) newPtr p len,
                                 headers := clobber (headers h1) newPtr len junk\<rparr>
                     in Some (Some newPtr, free h2 ptr)))))"

definition getFreeMemory :: "HeapAllocator \<Rightarrow> size_t" where
  "getFreeMemory h = heapSize h - allocatedBytes h - of_nat HEADER_SIZE"

definition getUsedMemory :: "HeapAllocator \<Rightarrow> size_t" where
  "getUsedMemory h = allocatedBytes h"

definition getTotalMemory :: "HeapAllocator \<Rightarrow> size_t" where
  "getTotalMemory h = heapSize h"

subsection \<open>Scenarios of the heap\<close>

text \<open>A heap of 64 bytes whose one block of 32 bytes is allocated.\<close>

definition C8_full :: HeapAllocator where
  "C8_full =
     \<lparr>headers = (\<lambda>a. \<lparr>bsize = 0, isFree = False, bnext = None, bprev = None\<rparr>)
                 (0 := \<lparr>bsize = 32, isFree = False, bnext = None, bprev = None\<rparr>),
      bytes = (\<lambda>a. 0),
      heapSize = 64,
      freeList = Some 0,
      allocatedBytes = 32\<rparr>"

text \<open>
  A new heap of 1024 bytes, and a new heap of 80 bytes, whose one free block holds 48
  bytes: a request of 8 bytes leaves exactly \<^verbatim>\<open>sizeof(BlockHeader) + 8\<close> bytes over.
\<close>

definition C4_roomy :: HeapAllocator where
  "C4_roomy = HeapAllocator_new 1024"

section \<open>Properties of the IPC manager\<close>

text \<open>
  C10. A \<^verbatim>\<open>sendMessage\<close> whose receiver has no mailbox returns 0 and leaves the whole
  manager as it was: the id counter, every mailbox and the sent counter.
\<close>

theorem C10_send_unregistered:
  assumes "messageQueues s receiver = None"
  shows "sendMessage s sender receiver data n t blocking = (0, s)"
  using assms by (simp add: sendMessage_def)

theorem C10_send_unregistered_witness:
  "messageQueues IPCManager_new 2 = None \<and>
   sendMessage IPCManager_new 1 2 (Some [7]) 1 Data False = (0, IPCManager_new) \<and>
   nextMessageId (snd (sendMessage IPCManager_new 1 2 (Some [7]) 1 Data False)) = 1"
proof -
  have h: "messageQueues IPCManager_new 2 = None"
    by (simp add: IPCManager_new_def)
  from C10_send_unregistered [OF h, of 1 "Some [7]" 1 Data False] h
  show ?thesis by (simp add: IPCManager_new_def)
qed











text \<open>
  C7. A \<^verbatim>\<open>sendMessage\<close> to a registered receiver with a size above 4096 still takes
  the next message id, returns it, and enqueues the message at the tail of the
  receiver's mailbox with an empty payload. The id is the counter before the call, so
  it is not 0 as long as the 32-bit counter is not 0.
\<close>

theorem C7_oversize_payload_dropped:
  assumes "messageQueues s receiver = Some q" and "MAX_MESSAGE_SIZE < n"
  shows "sendMessage s sender receiver data n t blocking =
           (nextMessageId s,
            s\<lparr>messageQueues := (messageQueues s)(receiver \<mapsto>
                 q\<lparr>messages := messages q @
                   [\<lparr>msg_id = nextMessageId s, senderId = sender, receiverId = receiver,
                     msg_type = t, payload = [], isBlocking = blocking\<rparr>]\<rparr>),
              nextMessageId := nextMessageId s + 1,
              totalMessagesSent := totalMessagesSent s + 1\<rparr>) \<and>
         (nextMessageId s \<noteq> 0 \<longrightarrow> fst (sendMessage s sender receiver data n t blocking) \<noteq> 0)"
  using assms
  by (simp add: sendMessage_def Let_def enqueue_def Message_new_def setPayload_def
           split: option.splits)

theorem C7_oversize_payload_dropped_witness:
  "sendMessage S6_registered 1 2 (Some (replicate 5000 0)) 5000 Data False =
     (1, S6_registered\<lparr>messageQueues := (messageQueues S6_registered)(2 \<mapsto>
            \<lparr>owner = 2, messages =
               [\<lparr>msg_id = 1, senderId = 1, receiverId = 2, msg_type = Data, payload = [],
                 isBlocking = False\<rparr>]\<rparr>),
          nextMessageId := 2, totalMessagesSent := 1\<rparr>) \<and>
   fst (sendMessage S6_registered 1 2 (Some (replicate 5000 0)) 5000 Data False) \<noteq> 0"
proof -
  have b: "messageQueues S6_registered 2 = Some (MessageQueue_new 2)"
    by (simp add: S6_registered_def registerTask_def IPCManager_new_def)
  have big: "MAX_MESSAGE_SIZE < 5000"
    by (simp add: MAX_MESSAGE_SIZE_def)
  have d: "nextMessageId S6_registered = 1" "totalMessagesSent S6_registered = 0"
    by (simp_all add: S6_registered_def registerTask_def IPCManager_new_def)
  from C7_oversize_payload_dropped [OF b big, of 1 "Some (replicate 5000 0)" Data False] d
  show ?thesis
    by (simp add: MessageQueue_new_def)
qed

lemma exchanges_counter:
  assumes "messageQueues s 2 = Some q" and "messages q = []"
  shows "exchanges k s =
           s\<lparr>nextMessageId := nextMessageId s + of_nat k,
             totalMessagesSent := totalMessagesSent s + of_nat k,
             totalMessagesReceived := totalMessagesReceived s + of_nat k\<rparr>"
  using assms
proof (induction k arbitrary: s)
  case 0
  then show ?case by simp
next
  case (Suc k)
  let ?s1 = "snd (receiveMessage (snd (sendMessage s 1 2 None 0 Data False)) 2 False)"
  have q: "q\<lparr>messages := []\<rparr> = q"
    using Suc.prems(2) by simp
  have m: "(messageQueues s)(2 \<mapsto> q) = messageQueues s"
    using Suc.prems(1) by (simp add: map_upd_triv)
  have step: "?s1 = s\<lparr>nextMessageId := nextMessageId s + 1,
                       totalMessagesSent := totalMessagesSent s + 1,
                       totalMessagesReceived := totalMessagesReceived s + 1\<rparr>"
    by (simp add: sendMessage_def receiveMessage_def Let_def enqueue_def dequeue_def
                  Message_new_def Suc.prems q m)
  have "exchanges k ?s1 =
          ?s1\<lparr>nextMessageId := nextMessageId ?s1 + of_nat k,
              totalMessagesSent := totalMessagesSent ?s1 + of_nat k,
              totalMessagesReceived := totalMessagesReceived ?s1 + of_nat k\<rparr>"
    by (rule Suc.IH) (simp_all add: step Suc.prems)
  then show ?case
    by (simp add: step add.assoc add.commute)
qed

text \<open>
  C7, as the specification words it, fails at the wrap: after \<open>2 ^ 32 - 1\<close> exchanges
  on a new manager the counter is 0, and the next send to the registered task 2, with
  5000 bytes, is enqueued and returns 0, the value that stands for a failed send.
\<close>

theorem C7_nonzero_id_counterexample:
  "messageQueues (exchanges 4294967295 S6_registered) 2 \<noteq> None \<and>
   MAX_MESSAGE_SIZE < 5000 \<and>
   fst (sendMessage (exchanges 4294967295 S6_registered) 1 2
          (Some (replicate 5000 0)) 5000 Data False) = 0 \<and>
   getMessageCount (snd (sendMessage (exchanges 4294967295 S6_registered) 1 2
          (Some (replicate 5000 0)) 5000 Data False)) 2 = 1"
proof -
  have b: "messageQueues S6_registered 2 = Some (MessageQueue_new 2)"
    by (simp add: S6_registered_def registerTask_def IPCManager_new_def)
  have e: "messages (MessageQueue_new 2) = []"
    by (simp add: MessageQueue_new_def)
  have d: "nextMessageId S6_registered = 1"
    by (simp add: S6_registered_def registerTask_def IPCManager_new_def)
  have w: "(1 :: 32 word) + of_nat 4294967295 = 0"
    by simp
  show ?thesis
    using b d w
    by (simp add: exchanges_counter [OF b e] sendMessage_def Let_def getMessageCount_def
                  enqueue_def MessageQueue_new_def MAX_MESSAGE_SIZE_def)
qed
section \<open>Properties of the scheduler\<close>

text \<open>The scheduler of scenario S1 after the three tasks are created.\<close>

lemma S1_created_eq:
  "S1_created =
     \<lparr>sched_type = RoundRobin, nextTaskId = 4, currentTaskId = INVALID_TASK_ID,
      tasks = [1 \<mapsto> \<lparr>tcb_id = 1, name = ''task1'', state = Ready, priority = Normal,
                      cpuTimeMs = 0, timeSliceRemaining = 100\<rparr>,
               2 \<mapsto> \<lparr>tcb_id = 2, name = ''task2'', state = Ready, priority = Normal,
                      cpuTimeMs = 0, timeSliceRemaining = 100\<rparr>,
               3 \<mapsto> \<lparr>tcb_id = 3, name = ''task3'', state = Ready, priority = Normal,
                      cpuTimeMs = 0, timeSliceRemaining = 100\<rparr>],
      readyQueue = [1, 2, 3], priorityQueues = Map.empty, tickCount = 0,
      schedulerRunning = False\<rparr>"
  by (simp add: S1_created_def createTask_def Scheduler_new_def addToReadyQueue_def
                TaskControlBlock_new_def TIME_QUANTUM_MS_def Let_def)

text \<open>
  C2. Round-robin rotation: after \<^verbatim>\<open>schedule\<close> task 1 is current and the ready FIFO
  is 2, 3; each \<^verbatim>\<open>yield\<close> makes the head of the FIFO current and puts the task that
  was running at the tail, so the current task goes 2, 3 and back to 1.
\<close>

theorem C2_round_robin_rotation:
  "(case S1_scheduled of
      Inl e \<Rightarrow> False
    | Inr s \<Rightarrow> currentId s = Some 1 \<and> readyQueue s = [2, 3] \<and> stateOf s 1 = Some Running) \<and>
   (case S1_yield1 of
      Inl e \<Rightarrow> False
    | Inr s \<Rightarrow> currentId s = Some 2 \<and> readyQueue s = [3, 1] \<and>
               stateOf s 2 = Some Running \<and> stateOf s 1 = Some Ready) \<and>
   (case S1_yield2 of
      Inl e \<Rightarrow> False
    | Inr s \<Rightarrow> currentId s = Some 3 \<and> readyQueue s = [1, 2] \<and>
               stateOf s 3 = Some Running \<and> stateOf s 2 = Some Ready) \<and>
   (case S1_yield3 of
      Inl e \<Rightarrow> False
    | Inr s \<Rightarrow> currentId s = Some 1 \<and> readyQueue s = [2, 3] \<and>
               stateOf s 1 = Some Running \<and> stateOf s 3 = Some Ready)"
  by (simp add: S1_yield3_def S1_yield2_def S1_yield1_def S1_scheduled_def S1_created_eq
                andThen_def schedule_def yield_def selectNextTask_def selectRoundRobin_def
                getCurrentTask_def getTask_def addToReadyQueue_def removeFromReadyQueue_def
                INVALID_TASK_ID_def TIME_QUANTUM_MS_def Let_def currentId_def stateOf_def)

text \<open>
  With nothing in the ready structure, selection finds no task and removing an id
  changes nothing.
\<close>

lemma empty_priority_queues:
  assumes "sum_list (map (\<lambda>p. case pq p of None \<Rightarrow> 0 | Some q \<Rightarrow> length q)
                         [Idle, Low, Normal, High, RealTime]) = 0"
  shows "pq p = None \<or> pq p = Some []"
proof -
  have "(case pq p of None \<Rightarrow> 0 | Some q \<Rightarrow> length q) = 0"
    using assms by (cases p) simp_all
  then show ?thesis
    by (cases "pq p") simp_all
qed

lemma selectFrom_empty:
  assumes "\<And>p. pq p = None \<or> pq p = Some []"
  shows "selectFrom ps pq = INVALID_TASK_ID"
proof (induction ps)
  case Nil
  then show ?case by simp
next
  case (Cons p ps)
  with assms [of p] show ?case by auto
qed


lemma selectNextTask_nothing_ready:
  assumes "getReadyQueueSize s = 0"
  shows "selectNextTask s = INVALID_TASK_ID"
proof (cases "sched_type s")
  case RoundRobin
  with assms show ?thesis
    by (simp add: getReadyQueueSize_def selectNextTask_def selectRoundRobin_def)
next
  case Priority
  with assms have "\<And>p. priorityQueues s p = None \<or> priorityQueues s p = Some []"
    by (intro empty_priority_queues) (simp add: getReadyQueueSize_def)
  then have "selectFrom [RealTime, High, Normal, Low, Idle] (priorityQueues s) = INVALID_TASK_ID"
    by (rule selectFrom_empty)
  with Priority show ?thesis
    by (simp only: selectNextTask_def selectPriority_def) simp
qed



lemma C1_one_ready_eq:
  "C1_one_ready =
     \<lparr>sched_type = RoundRobin, nextTaskId = 2, currentTaskId = INVALID_TASK_ID,
      tasks = [1 \<mapsto> \<lparr>tcb_id = 1, name = ''task1'', state = Ready, priority = Normal,
                      cpuTimeMs = 0, timeSliceRemaining = 100\<rparr>],
      readyQueue = [1], priorityQueues = Map.empty, tickCount = 0,
      schedulerRunning = False\<rparr>"
  by (simp add: C1_one_ready_def createTask_def Scheduler_new_def addToReadyQueue_def
                TaskControlBlock_new_def TIME_QUANTUM_MS_def Let_def)



text \<open>
  C1. \<^verbatim>\<open>setSchedulerType\<close> with another discipline changes the discipline
  and nothing else: no task is re-placed, the task table, the round-robin FIFO and the
  per-priority FIFOs are exactly what they were, and switching back gives the
  scheduler it was. Membership is not carried over: where the structure of the new
  discipline holds no id, \<^verbatim>\<open>getReadyQueueSize\<close> is 0 and \<^verbatim>\<open>selectNextTask\<close> finds no
  task after the switch, whichever tasks are Ready.
\<close>

theorem C1_switch_moves_no_task:
  assumes "sched_type s \<noteq> t"
  shows "setSchedulerType s t = s\<lparr>sched_type := t\<rparr> \<and>
         tasks (setSchedulerType s t) = tasks s \<and>
         readyQueue (setSchedulerType s t) = readyQueue s \<and>
         priorityQueues (setSchedulerType s t) = priorityQueues s \<and>
         sched_type (setSchedulerType s t) = t \<and>
         setSchedulerType (setSchedulerType s t) (sched_type s) = s \<and>
         (structure_empty s t \<longrightarrow>
            getReadyQueueSize (setSchedulerType s t) = 0 \<and>
            selectNextTask (setSchedulerType s t) = INVALID_TASK_ID)"
proof -
  have same: "setSchedulerType s t = s\<lparr>sched_type := t\<rparr> \<and>
              tasks (setSchedulerType s t) = tasks s \<and>
              readyQueue (setSchedulerType s t) = readyQueue s \<and>
              priorityQueues (setSchedulerType s t) = priorityQueues s \<and>
              sched_type (setSchedulerType s t) = t \<and>
              setSchedulerType (setSchedulerType s t) (sched_type s) = s"
    using assms by (simp add: setSchedulerType_def)
  have none: "getReadyQueueSize (setSchedulerType s t) = 0 \<and>
              selectNextTask (setSchedulerType s t) = INVALID_TASK_ID"
    if e: "structure_empty s t"
  proof -
    have size: "getReadyQueueSize (setSchedulerType s t) = 0"
    proof (cases t)
      case RoundRobin
      with e assms show ?thesis
        by (simp add: structure_empty_def setSchedulerType_def getReadyQueueSize_def)
    next
      case Priority
      have "(case priorityQueues s p of None \<Rightarrow> 0 | Some q \<Rightarrow> length q) = 0" for p
        using e Priority
        by (cases p; cases "priorityQueues s p") (simp_all add: structure_empty_def)
      with Priority assms show ?thesis
        by (simp add: setSchedulerType_def getReadyQueueSize_def)
    qed
    from size selectNextTask_nothing_ready [OF size] show ?thesis
      by simp
  qed
  from same none show ?thesis
    by blast
qed

theorem C1_switch_moves_no_task_witness:
  "sched_type C1_one_ready \<noteq> Priority \<and> structure_empty C1_one_ready Priority \<and>
   setSchedulerType C1_one_ready Priority = C1_one_ready\<lparr>sched_type := Priority\<rparr> \<and>
   stateOf (setSchedulerType C1_one_ready Priority) 1 = Some Ready \<and>
   readyQueue (setSchedulerType C1_one_ready Priority) = [1] \<and>
   priorityQueues (setSchedulerType C1_one_ready Priority) = Map.empty \<and>
   sched_type (setSchedulerType C1_one_ready Priority) = Priority \<and>
   getReadyQueueSize (setSchedulerType C1_one_ready Priority) = 0 \<and>
   selectNextTask (setSchedulerType C1_one_ready Priority) = INVALID_TASK_ID \<and>
   setSchedulerType (setSchedulerType C1_one_ready Priority) RoundRobin = C1_one_ready"
proof -
  have a: "sched_type C1_one_ready \<noteq> Priority"
    by (simp add: C1_one_ready_eq)
  have e: "structure_empty C1_one_ready Priority"
    by (simp add: C1_one_ready_eq structure_empty_def)
  have r: "sched_type C1_one_ready = RoundRobin" "readyQueue C1_one_ready = [1]"
    "priorityQueues C1_one_ready = Map.empty" "tasks C1_one_ready 1 \<noteq> None"
    "map_option state (tasks C1_one_ready 1) = Some Ready"
    by (simp_all add: C1_one_ready_eq)
  from C1_switch_moves_no_task [OF a] e
  have all: "setSchedulerType C1_one_ready Priority = C1_one_ready\<lparr>sched_type := Priority\<rparr>"
    "tasks (setSchedulerType C1_one_ready Priority) = tasks C1_one_ready"
    "readyQueue (setSchedulerType C1_one_ready Priority) = readyQueue C1_one_ready"
    "priorityQueues (setSchedulerType C1_one_ready Priority) = priorityQueues C1_one_ready"
    "sched_type (setSchedulerType C1_one_ready Priority) = Priority"
    "setSchedulerType (setSchedulerType C1_one_ready Priority) (sched_type C1_one_ready)
       = C1_one_ready"
    "getReadyQueueSize (setSchedulerType C1_one_ready Priority) = 0"
    "selectNextTask (setSchedulerType C1_one_ready Priority) = INVALID_TASK_ID"
    by blast+
  have st: "stateOf (setSchedulerType C1_one_ready Priority) 1 = Some Ready"
    by (simp only: stateOf_def getTask_def all(2) r(5))
  have f3: "readyQueue (setSchedulerType C1_one_ready Priority) = [1]"
    using all(3) r(2) by (rule trans)
  have f4: "priorityQueues (setSchedulerType C1_one_ready Priority) = Map.empty"
    using all(4) r(3) by (rule trans)
  have f6: "setSchedulerType (setSchedulerType C1_one_ready Priority) RoundRobin = C1_one_ready"
    using all(6) by (simp only: r(1))
  from a e all(1) st f3 f4 all(5) all(7) all(8) f6 show ?thesis
    by blast
qed

text \<open>
  C1, as the specification words it, fails: task 1 is Ready and in the round-robin FIFO; after the
  switch to the priority discipline it is still Ready, no priority FIFO holds it, the
  ready size has gone from 1 to 0 and selection finds no task.
\<close>

theorem C1_membership_counterexample:
  "sched_type C1_one_ready = RoundRobin \<and>
   stateOf C1_one_ready 1 = Some Ready \<and>
   getReadyQueueSize C1_one_ready = 1 \<and>
   selectNextTask C1_one_ready = 1 \<and>
   stateOf (setSchedulerType C1_one_ready Priority) 1 = Some Ready \<and>
   priorityQueues (setSchedulerType C1_one_ready Priority) = Map.empty \<and>
   getReadyQueueSize (setSchedulerType C1_one_ready Priority) = 0 \<and>
   selectNextTask (setSchedulerType C1_one_ready Priority) = INVALID_TASK_ID"
  by (simp add: C1_one_ready_eq setSchedulerType_def getReadyQueueSize_def selectNextTask_def
                selectRoundRobin_def selectPriority_def stateOf_def getTask_def)

section \<open>Properties of the memory manager\<close>

subsection \<open>The frame scan and the frame map\<close>

lemma allocateFrame_from_Some:
  assumes "allocateFrame_from i m = Some (f, m')"
  shows "\<exists>k. i \<le> k \<and> k < TOTAL_PHYSICAL_FRAMES \<and> \<not> bit m k \<and> f = of_nat k \<and> m' = set_bit k m"
  using assms
proof (induction i m rule: allocateFrame_from.induct)
  case (1 i m)
  show ?case
  proof (cases "i < TOTAL_PHYSICAL_FRAMES \<and> bit m i")
    case True
    with "1.prems" have "allocateFrame_from (i + 1) m = Some (f, m')"
      by (simp add: allocateFrame_from.simps [of i])
    with "1.IH" True obtain k where
      "i + 1 \<le> k" "k < TOTAL_PHYSICAL_FRAMES" "\<not> bit m k" "f = of_nat k" "m' = set_bit k m"
      by blast
    then show ?thesis
      by (intro exI [of _ k]) simp
  next
    case False
    with "1.prems" show ?thesis
      by (intro exI [of _ i]) (auto simp: allocateFrame_from.simps [of i] split: if_splits)
  qed
qed

lemma unat_frame_index:
  assumes "k < TOTAL_PHYSICAL_FRAMES"
  shows "unat (of_nat k :: FrameNumber) = k"
proof -
  from assms have "k < 2 ^ 32"
    by (simp add: TOTAL_PHYSICAL_FRAMES_def)
  then show ?thesis
    by (simp add: unat_of_nat take_bit_nat_eq_self)
qed

lemma allocateFrame_Some:
  assumes "allocateFrame m = Some (f, m')"
  shows "unat f < TOTAL_PHYSICAL_FRAMES \<and> \<not> bit m (unat f) \<and> m' = set_bit (unat f) m"
proof -
  from allocateFrame_from_Some [OF assms [unfolded allocateFrame_def]] obtain k where
    k: "k < TOTAL_PHYSICAL_FRAMES" "\<not> bit m k" "f = of_nat k" "m' = set_bit k m"
    by blast
  with unat_frame_index [OF k(1)] show ?thesis
    by simp
qed

lemma unset_set_fresh:
  fixes m :: "1024 word"
  assumes "\<not> bit m k"
  shows "unset_bit k (set_bit k m) = m"
  using assms by (auto intro!: bit_eqI simp: bit_unset_bit_iff bit_set_bit_iff)

subsection \<open>The entry lists\<close>

lemma map_of_entries_put: "map_of (entries_put k v es) = (map_of es)(k \<mapsto> v)"
  by (induction es) (auto simp: fun_eq_iff)

lemma keys_entries_put: "fst ` set (entries_put k v es) = insert k (fst ` set es)"
proof -
  have "dom (map_of (entries_put k v es)) = dom ((map_of es)(k \<mapsto> v))"
    by (simp only: map_of_entries_put)
  then show ?thesis
    by (simp add: dom_map_of_conv_image_fst)
qed

lemma sorted_entries_put:
  "sorted_wrt (<) (map fst es) \<Longrightarrow> sorted_wrt (<) (map fst (entries_put k v es))"
proof (induction es)
  case Nil
  then show ?case by simp
next
  case (Cons a es)
  obtain k' v' where a: "a = (k', v')"
    by (cases a)
  from Cons.prems a have above: "\<forall>x \<in> fst ` set es. k' < x"
    and rest: "sorted_wrt (<) (map fst es)"
    by simp_all
  show ?case
  proof (cases "k = k'")
    case True
    with above rest a show ?thesis by simp
  next
    case False
    note ne = this
    show ?thesis
    proof (cases "k < k'")
      case True
      with above have "\<forall>x \<in> fst ` set es. k < x"
        by auto
      with ne True above rest a show ?thesis
        by simp
    next
      case False
      with ne have "k' < k"
        by simp
      with ne False above rest a show ?thesis
        by (simp add: Cons.IH keys_entries_put)
    qed
  qed
qed

lemma set_entries_erase: "set (entries_erase k es) \<subseteq> set es"
  by (induction es) (auto split: if_splits)

lemma keys_entries_erase: "fst ` set (entries_erase k es) \<subseteq> fst ` set es"
  by (rule image_mono) (rule set_entries_erase)

lemma sorted_entries_erase:
  "sorted_wrt (<) (map fst es) \<Longrightarrow> sorted_wrt (<) (map fst (entries_erase k es))"
proof (induction es)
  case Nil
  then show ?case by simp
next
  case (Cons a es)
  obtain k' v' where a: "a = (k', v')"
    by (cases a)
  from Cons.prems a have above: "\<forall>x \<in> fst ` set es. k' < x"
    and rest: "sorted_wrt (<) (map fst es)"
    by simp_all
  from above keys_entries_erase [of k es] have "\<forall>x \<in> fst ` set (entries_erase k es). k' < x"
    by blast
  with rest a show ?case
    by (simp add: Cons.IH)
qed

lemma sorted_keys_distinct:
  fixes es :: "(PageNumber \<times> PageTableEntry) list"
  shows "sorted_wrt (<) (map fst es) \<Longrightarrow> distinct (map fst es)"
  by (simp add: strict_sorted_iff)

lemma map_of_entries_erase:
  "distinct (map fst es) \<Longrightarrow> map_of (entries_erase k es) = (map_of es)(k := None)"
proof (induction es)
  case Nil
  then show ?case by simp
next
  case (Cons a es)
  obtain k' v' where a: "a = (k', v')"
    by (cases a)
  show ?case
  proof (cases "k = k'")
    case True
    with Cons.prems a have "map_of es k = None"
      by (simp add: map_of_eq_None_iff)
    with True a show ?thesis
      by (auto simp: fun_eq_iff)
  next
    case False
    with Cons a show ?thesis
      by (auto simp: fun_eq_iff)
  qed
qed

subsection \<open>Allocating and freeing a page\<close>

text \<open>
  C5. If \<^verbatim>\<open>allocatePage(t, p)\<close> succeeds, the \<^verbatim>\<open>freePage(t, p)\<close> after it returns true
  and \<^verbatim>\<open>getFreeFrameCount()\<close> is what it was before the allocation (the frame map
  itself is what it was).
\<close>

theorem C5_allocate_free_restores_count:
  assumes "allocatePage s t p prot = (Some a, s1)"
  shows "fst (freePage s1 t p) = True \<and>
         getFreeFrameCount (snd (freePage s1 t p)) = getFreeFrameCount s \<and>
         frameAllocationMap (snd (freePage s1 t p)) = frameAllocationMap s"
proof -
  from assms obtain pt where pt: "pageTables s t = Some pt"
    by (auto simp: allocatePage_def split: option.splits)
  from assms pt obtain f m' where fr: "allocateFrame (frameAllocationMap s) = Some (f, m')"
    by (auto simp: allocatePage_def split: option.splits if_splits)
  let ?e = "\<lparr>frameNumber = f, present = True, dirty = False, accessed = False, protection = prot\<rparr>"
  from assms pt fr have s1: "s1 = s\<lparr>frameAllocationMap := m',
       pageTables := (pageTables s)(t \<mapsto> pt\<lparr>entries := entries_put p ?e (entries pt)\<rparr>),
       totalAllocatedPages := totalAllocatedPages s + 1\<rparr>"
    by (auto simp: allocatePage_def Let_def split: option.splits if_splits)
  from allocateFrame_Some [OF fr] have f: "unat f < TOTAL_PHYSICAL_FRAMES"
    "\<not> bit (frameAllocationMap s) (unat f)" "m' = set_bit (unat f) (frameAllocationMap s)"
    by simp_all
  have restored: "unset_bit (unat f) m' = frameAllocationMap s"
    using unset_set_fresh [OF f(2)] f(3) by simp
  have "freePage s1 t p =
          (True, s1\<lparr>frameAllocationMap := frameAllocationMap s,
                    pageTables := (pageTables s1)(t \<mapsto>
                      (pt\<lparr>entries := entries_put p ?e (entries pt)\<rparr>)
                        \<lparr>entries := entries_erase p (entries_put p ?e (entries pt))\<rparr>),
                    totalAllocatedPages := totalAllocatedPages s1 - 1\<rparr>)"
    using f(1) restored by (simp add: freePage_def s1 map_of_entries_put freeFrame_def)
  then show ?thesis
    by (simp add: getFreeFrameCount_def)
qed

theorem C5_allocate_free_restores_count_witness:
  "fst (allocatePage S3_space 1 5 ReadWrite) = Some 0 \<and>
   fst (freePage (snd (allocatePage S3_space 1 5 ReadWrite)) 1 5) = True \<and>
   getFreeFrameCount (snd (freePage (snd (allocatePage S3_space 1 5 ReadWrite)) 1 5))
     = getFreeFrameCount S3_space"
proof -
  have a: "fst (allocatePage S3_space 1 5 ReadWrite) = Some 0"
    by (simp add: S3_space_def createAddressSpace_def MemoryManager_new_def allocatePage_def
                  allocateFrame_def allocateFrame_from.simps [of 0] TOTAL_PHYSICAL_FRAMES_def
                  PAGE_SIZE_def Let_def)
  then have h: "allocatePage S3_space 1 5 ReadWrite
                  = (Some 0, snd (allocatePage S3_space 1 5 ReadWrite))"
    by (simp add: prod_eq_iff)
  from C5_allocate_free_restores_count [OF h] a
  show ?thesis
    by simp
qed

subsection \<open>The frame map and the present entries\<close>

lemma possible_frame_bit: "possible_bit TYPE(1024 word) k = (k < TOTAL_PHYSICAL_FRAMES)"
  by (simp add: possible_bit_def TOTAL_PHYSICAL_FRAMES_def)

lemma bit_frame_bound:
  fixes m :: "1024 word"
  shows "bit m k \<Longrightarrow> k < TOTAL_PHYSICAL_FRAMES"
  using bit_imp_possible_bit [of m k] by (simp add: TOTAL_PHYSICAL_FRAMES_def)

lemma frames_ok_alloc:
  assumes "frames_ok m fo" and "\<not> bit m k" and "k < TOTAL_PHYSICAL_FRAMES" and "fo tp = None"
  shows "frames_ok (set_bit k m) (fo(tp \<mapsto> k))"
proof -
  from assms(1) have
    a: "\<And>x j. fo x = Some j \<Longrightarrow> j < TOTAL_PHYSICAL_FRAMES \<and> bit m j" and
    b: "\<And>x y j. fo x = Some j \<Longrightarrow> fo y = Some j \<Longrightarrow> x = y" and
    c: "\<And>i. bit m i \<Longrightarrow> \<exists>x. fo x = Some i"
    unfolding frames_ok_def by blast+
  have bits: "\<And>i. bit (set_bit k m) i = (bit m i \<or> i = k)"
    using assms(3) by (auto simp: bit_set_bit_iff TOTAL_PHYSICAL_FRAMES_def)
  have "\<And>x j. (fo(tp \<mapsto> k)) x = Some j \<Longrightarrow> j < TOTAL_PHYSICAL_FRAMES \<and> bit (set_bit k m) j"
    using a assms(3) bits by (auto split: if_splits)
  moreover have "\<And>x y j. (fo(tp \<mapsto> k)) x = Some j \<Longrightarrow> (fo(tp \<mapsto> k)) y = Some j \<Longrightarrow> x = y"
    using a b assms(2) by (auto split: if_splits)
  moreover have "\<And>i. bit (set_bit k m) i \<Longrightarrow> \<exists>x. (fo(tp \<mapsto> k)) x = Some i"
  proof -
    fix i
    assume "bit (set_bit k m) i"
    with bits have "bit m i \<or> i = k"
      by simp
    then show "\<exists>x. (fo(tp \<mapsto> k)) x = Some i"
    proof
      assume "bit m i"
      with c obtain x where x: "fo x = Some i"
        by blast
      with assms(4) have "x \<noteq> tp"
        by auto
      with x show ?thesis
        by (intro exI [of _ x]) simp
    next
      assume "i = k"
      then show ?thesis
        by (intro exI [of _ tp]) simp
    qed
  qed
  ultimately show ?thesis
    unfolding frames_ok_def by blast
qed

lemma frames_ok_free:
  assumes "frames_ok m fo" and "fo tp = Some k"
  shows "frames_ok (unset_bit k m) (fo(tp := None))"
proof -
  from assms(1) have
    a: "\<And>x j. fo x = Some j \<Longrightarrow> j < TOTAL_PHYSICAL_FRAMES \<and> bit m j" and
    b: "\<And>x y j. fo x = Some j \<Longrightarrow> fo y = Some j \<Longrightarrow> x = y" and
    c: "\<And>i. bit m i \<Longrightarrow> \<exists>x. fo x = Some i"
    unfolding frames_ok_def by blast+
  have bits: "\<And>i. bit (unset_bit k m) i = (bit m i \<and> i \<noteq> k)"
    by (auto simp: bit_unset_bit_iff)
  have "\<And>x j. (fo(tp := None)) x = Some j \<Longrightarrow> j < TOTAL_PHYSICAL_FRAMES \<and> bit (unset_bit k m) j"
  proof -
    fix x j
    assume "(fo(tp := None)) x = Some j"
    then have x: "x \<noteq> tp" "fo x = Some j"
      by (auto split: if_splits)
    from b [OF x(2), of tp] assms(2) x(1) have "j \<noteq> k"
      by auto
    with a [OF x(2)] bits show "j < TOTAL_PHYSICAL_FRAMES \<and> bit (unset_bit k m) j"
      by simp
  qed
  moreover have "\<And>x y j. (fo(tp := None)) x = Some j \<Longrightarrow> (fo(tp := None)) y = Some j \<Longrightarrow> x = y"
    using b by (auto split: if_splits)
  moreover have "\<And>i. bit (unset_bit k m) i \<Longrightarrow> \<exists>x. (fo(tp := None)) x = Some i"
  proof -
    fix i
    assume "bit (unset_bit k m) i"
    with bits have i: "bit m i" "i \<noteq> k"
      by simp_all
    with c obtain x where x: "fo x = Some i"
      by blast
    with assms(2) i(2) have "x \<noteq> tp"
      by auto
    with x show "\<exists>x. (fo(tp := None)) x = Some i"
      by (intro exI [of _ x]) simp
  qed
  ultimately show ?thesis
    unfolding frames_ok_def by blast
qed

lemma frames_ok_destroy:
  assumes "frames_ok m fo"
    and "\<And>i. bit m' i = (bit m i \<and> \<not> (\<exists>p. fo (t, p) = Some i))"
  shows "frames_ok m' (\<lambda>tp. if fst tp = t then None else fo tp)"
proof -
  from assms(1) have
    a: "\<And>x j. fo x = Some j \<Longrightarrow> j < TOTAL_PHYSICAL_FRAMES \<and> bit m j" and
    b: "\<And>x y j. fo x = Some j \<Longrightarrow> fo y = Some j \<Longrightarrow> x = y" and
    c: "\<And>i. bit m i \<Longrightarrow> \<exists>x. fo x = Some i"
    unfolding frames_ok_def by blast+
  let ?fo = "\<lambda>tp. if fst tp = t then None else fo tp"
  have "\<And>x j. ?fo x = Some j \<Longrightarrow> j < TOTAL_PHYSICAL_FRAMES \<and> bit m' j"
  proof -
    fix x j
    assume "?fo x = Some j"
    then have x: "fst x \<noteq> t" "fo x = Some j"
      by (auto split: if_splits)
    have "\<not> (\<exists>p. fo (t, p) = Some j)"
    proof
      assume "\<exists>p. fo (t, p) = Some j"
      then obtain p where "fo (t, p) = Some j"
        by blast
      with b x(2) have "x = (t, p)"
        by blast
      with x(1) show False
        by simp
    qed
    with a [OF x(2)] assms(2) show "j < TOTAL_PHYSICAL_FRAMES \<and> bit m' j"
      by simp
  qed
  moreover have "\<And>x y j. ?fo x = Some j \<Longrightarrow> ?fo y = Some j \<Longrightarrow> x = y"
    using b by (auto split: if_splits)
  moreover have "\<And>i. bit m' i \<Longrightarrow> \<exists>x. ?fo x = Some i"
  proof -
    fix i
    assume "bit m' i"
    with assms(2) have i: "bit m i" "\<not> (\<exists>p. fo (t, p) = Some i)"
      by simp_all
    from c [OF i(1)] obtain x where x: "fo x = Some i"
      by blast
    with i(2) have "fst x \<noteq> t"
      by (cases x) auto
    with x show "\<exists>x. ?fo x = Some i"
      by (intro exI [of _ x]) simp
  qed
  ultimately show ?thesis
    unfolding frames_ok_def by blast
qed

subsection \<open>What each operation does to the present entries\<close>

lemma frame_of_same_tables:
  assumes "pageTables s' = pageTables s"
  shows "frame_of s' = frame_of s"
  using assms by (simp add: frame_of_def pte_at_def fun_eq_iff)

lemma frame_of_put:
  assumes "pageTables s t = Some pt"
    and "pageTables s' = (pageTables s)(t \<mapsto> pt\<lparr>entries := entries_put p e (entries pt)\<rparr>)"
  shows "frame_of s' =
           (frame_of s)((t, p) := (if present e then Some (unat (frameNumber e)) else None))"
proof
  fix tp :: "TaskId \<times> PageNumber"
  obtain t' p' where tp: "tp = (t', p')"
    by (cases tp)
  show "frame_of s' tp =
          ((frame_of s)((t, p) := (if present e then Some (unat (frameNumber e)) else None))) tp"
    using assms tp by (simp add: frame_of_def pte_at_def map_of_entries_put)
qed

lemma frame_of_erase:
  assumes "pageTables s t = Some pt" and "sorted_wrt (<) (map fst (entries pt))"
    and "pageTables s' = (pageTables s)(t \<mapsto> pt\<lparr>entries := entries_erase p (entries pt)\<rparr>)"
  shows "frame_of s' = (frame_of s)((t, p) := None)"
proof
  fix tp :: "TaskId \<times> PageNumber"
  obtain t' p' where tp: "tp = (t', p')"
    by (cases tp)
  from assms(2) have "distinct (map fst (entries pt))"
    by (rule sorted_keys_distinct)
  then have "map_of (entries_erase p (entries pt)) = (map_of (entries pt))(p := None)"
    by (rule map_of_entries_erase)
  then show "frame_of s' tp = ((frame_of s)((t, p) := None)) tp"
    using assms(1,3) tp by (simp add: frame_of_def pte_at_def)
qed

lemma frame_of_destroy:
  assumes "pageTables s' = (pageTables s)(t := None)"
  shows "frame_of s' = (\<lambda>tp. if fst tp = t then None else frame_of s tp)"
  using assms by (simp add: frame_of_def pte_at_def fun_eq_iff)

lemma frame_of_create:
  assumes "pageTables s t = None"
    and "pageTables s' = (pageTables s)(t \<mapsto> \<lparr>entries = [], ownerId = t\<rparr>)"
  shows "frame_of s' = frame_of s"
  using assms by (simp add: frame_of_def pte_at_def fun_eq_iff)

lemma tables_sorted_update:
  assumes "tables_sorted s" and "pageTables s' = (pageTables s)(t \<mapsto> pt')"
    and "sorted_wrt (<) (map fst (entries pt'))"
  shows "tables_sorted s'"
  using assms by (simp add: tables_sorted_def)

lemma tables_sorted_remove:
  assumes "tables_sorted s" and "pageTables s' = (pageTables s)(t := None)"
  shows "tables_sorted s'"
  using assms by (simp add: tables_sorted_def)

lemma bit_freeFrame:
  "bit (snd (freeFrame m f)) i = (bit m i \<and> unat f \<noteq> i)"
proof (cases "unat f \<ge> TOTAL_PHYSICAL_FRAMES")
  case True
  have "bit m i \<Longrightarrow> unat f \<noteq> i"
    using True bit_frame_bound [of m i] by auto
  with True show ?thesis
    by (auto simp: freeFrame_def)
next
  case False
  then show ?thesis
    by (auto simp: freeFrame_def bit_unset_bit_iff)
qed

lemma bit_freeFrames:
  "bit (freeFrames es m) i =
     (bit m i \<and> \<not> (\<exists>p e. (p, e) \<in> set es \<and> present e \<and> unat (frameNumber e) = i))"
proof (induction es arbitrary: m)
  case Nil
  then show ?case by simp
next
  case (Cons a es)
  obtain p e where a: "a = (p, e)"
    by (cases a)
  show ?case
    unfolding a by (auto simp: Cons.IH bit_freeFrame)
qed

subsection \<open>The invariant holds after every call\<close>

lemma mm_inv_new: "mm_inv MemoryManager_new"
  by (simp add: mm_inv_def tables_sorted_def frames_ok_def frame_of_def pte_at_def
                MemoryManager_new_def)

lemma mm_inv_same:
  assumes "mm_inv s" and "pageTables s' = pageTables s"
    and "frameAllocationMap s' = frameAllocationMap s"
  shows "mm_inv s'"
  using assms frame_of_same_tables [OF assms(2)]
  by (simp add: mm_inv_def tables_sorted_def)

lemma mm_inv_createAddressSpace:
  assumes "mm_inv s"
  shows "mm_inv (snd (createAddressSpace s t))"
proof (cases "pageTables s t")
  case (Some pt)
  with assms show ?thesis
    by (simp add: createAddressSpace_def)
next
  case None
  let ?s' = "s\<lparr>pageTables := (pageTables s)(t \<mapsto> \<lparr>entries = [], ownerId = t\<rparr>)\<rparr>"
  have "frame_of ?s' = frame_of s"
    by (rule frame_of_create [OF None]) simp
  moreover have "tables_sorted ?s'"
    using assms by (simp add: mm_inv_def tables_sorted_def)
  ultimately have "mm_inv ?s'"
    using assms by (simp add: mm_inv_def)
  with None show ?thesis
    by (simp add: createAddressSpace_def)
qed

lemma mm_inv_destroyAddressSpace:
  assumes "mm_inv s"
  shows "mm_inv (snd (destroyAddressSpace s t))"
proof (cases "pageTables s t")
  case None
  with assms show ?thesis
    by (simp add: destroyAddressSpace_def)
next
  case (Some pt)
  let ?m' = "freeFrames (entries pt) (frameAllocationMap s)"
  let ?s' = "s\<lparr>frameAllocationMap := ?m', pageTables := (pageTables s)(t := None)\<rparr>"
  from assms Some have "sorted_wrt (<) (map fst (entries pt))"
    by (simp add: mm_inv_def tables_sorted_def)
  then have d: "distinct (map fst (entries pt))"
    by (rule sorted_keys_distinct)
  have look: "\<And>p e. (map_of (entries pt) p = Some e) = ((p, e) \<in> set (entries pt))"
    using d by (rule map_of_eq_Some_iff)
  have held: "\<And>i. (\<exists>p e. (p, e) \<in> set (entries pt) \<and> present e \<and> unat (frameNumber e) = i)
                   = (\<exists>p. frame_of s (t, p) = Some i)"
  proof -
    fix i
    have fo: "\<And>p. frame_of s (t, p) =
                 (case map_of (entries pt) p of
                    None \<Rightarrow> None
                  | Some e \<Rightarrow> if present e then Some (unat (frameNumber e)) else None)"
      using Some by (simp add: frame_of_def pte_at_def)
    show "(\<exists>p e. (p, e) \<in> set (entries pt) \<and> present e \<and> unat (frameNumber e) = i)
            = (\<exists>p. frame_of s (t, p) = Some i)"
    proof
      assume "\<exists>p e. (p, e) \<in> set (entries pt) \<and> present e \<and> unat (frameNumber e) = i"
      then obtain p e where "(p, e) \<in> set (entries pt)" "present e" "unat (frameNumber e) = i"
        by blast
      moreover from this(1) look have "map_of (entries pt) p = Some e"
        by simp
      ultimately have "frame_of s (t, p) = Some i"
        by (simp add: fo)
      then show "\<exists>p. frame_of s (t, p) = Some i"
        by blast
    next
      assume "\<exists>p. frame_of s (t, p) = Some i"
      then obtain p where "frame_of s (t, p) = Some i"
        by blast
      then obtain e where "map_of (entries pt) p = Some e" "present e" "unat (frameNumber e) = i"
        by (auto simp: fo split: option.splits if_splits)
      with look show "\<exists>p e. (p, e) \<in> set (entries pt) \<and> present e \<and> unat (frameNumber e) = i"
        by blast
    qed
  qed
  have bits: "\<And>i. bit ?m' i = (bit (frameAllocationMap s) i \<and> \<not> (\<exists>p. frame_of s (t, p) = Some i))"
    by (simp only: bit_freeFrames held)
  have fo: "frame_of ?s' = (\<lambda>tp. if fst tp = t then None else frame_of s tp)"
    by (rule frame_of_destroy) simp
  from assms have "frames_ok (frameAllocationMap s) (frame_of s)"
    by (simp add: mm_inv_def)
  then have "frames_ok ?m' (\<lambda>tp. if fst tp = t then None else frame_of s tp)"
    using bits by (rule frames_ok_destroy)
  moreover have "tables_sorted ?s'"
    using assms by (simp add: mm_inv_def tables_sorted_def)
  ultimately have "mm_inv ?s'"
    by (simp add: mm_inv_def fo)
  with Some show ?thesis
    by (simp add: destroyAddressSpace_def)
qed

lemma mm_inv_allocatePage:
  assumes "mm_inv s"
  shows "mm_inv (snd (allocatePage s t p prot))"
proof (cases "fst (allocatePage s t p prot)")
  case None
  then have "snd (allocatePage s t p prot) = s"
    by (auto simp: allocatePage_def Let_def split: option.splits if_splits)
  with assms show ?thesis
    by simp
next
  case (Some a)
  then obtain pt where pt: "pageTables s t = Some pt"
    by (auto simp: allocatePage_def split: option.splits)
  from Some pt have absent:
    "(case map_of (entries pt) p of None \<Rightarrow> False | Some e \<Rightarrow> present e) = False"
    by (auto simp: allocatePage_def split: if_splits)
  from Some pt absent obtain f m' where fr: "allocateFrame (frameAllocationMap s) = Some (f, m')"
    by (auto simp: allocatePage_def split: option.splits)
  let ?e = "\<lparr>frameNumber = f, present = True, dirty = False, accessed = False, protection = prot\<rparr>"
  let ?s' = "s\<lparr>frameAllocationMap := m',
       pageTables := (pageTables s)(t \<mapsto> pt\<lparr>entries := entries_put p ?e (entries pt)\<rparr>),
       totalAllocatedPages := totalAllocatedPages s + 1\<rparr>"
  from pt absent fr have s': "snd (allocatePage s t p prot) = ?s'"
    by (simp add: allocatePage_def Let_def)
  from allocateFrame_Some [OF fr] have f: "unat f < TOTAL_PHYSICAL_FRAMES"
    "\<not> bit (frameAllocationMap s) (unat f)" "m' = set_bit (unat f) (frameAllocationMap s)"
    by simp_all
  from pt absent have none: "frame_of s (t, p) = None"
    by (auto simp: frame_of_def pte_at_def split: option.splits)
  have fo: "frame_of ?s' = (frame_of s)((t, p) \<mapsto> unat f)"
    using frame_of_put [OF pt, of ?s' p ?e] by simp
  from assms have ok: "frames_ok (frameAllocationMap s) (frame_of s)"
    and srt: "tables_sorted s"
    by (simp_all add: mm_inv_def)
  have fam: "frameAllocationMap ?s' = m'"
    by simp
  have "frames_ok m' ((frame_of s)((t, p) \<mapsto> unat f))"
    using frames_ok_alloc [OF ok f(2) f(1) none] by (simp only: f(3))
  then have "frames_ok (frameAllocationMap ?s') (frame_of ?s')"
    by (simp only: fam fo)
  moreover from srt pt have "sorted_wrt (<) (map fst (entries pt))"
    by (simp add: tables_sorted_def)
  then have "sorted_wrt (<) (map fst (entries_put p ?e (entries pt)))"
    by (rule sorted_entries_put)
  then have "tables_sorted ?s'"
    using srt by (simp add: tables_sorted_def)
  ultimately show ?thesis
    by (simp only: s' mm_inv_def)
qed

lemma mm_inv_freePage:
  assumes "mm_inv s"
  shows "mm_inv (snd (freePage s t p))"
proof (cases "fst (freePage s t p)")
  case False
  then have "snd (freePage s t p) = s"
    by (auto simp: freePage_def split: option.splits if_splits)
  with assms show ?thesis
    by simp
next
  case True
  then obtain pt e where pt: "pageTables s t = Some pt"
    and e: "map_of (entries pt) p = Some e" "present e"
    by (auto simp: freePage_def split: option.splits if_splits)
  from assms have ok: "frames_ok (frameAllocationMap s) (frame_of s)"
    and srt: "tables_sorted s"
    by (simp_all add: mm_inv_def)
  from srt pt have sorted: "sorted_wrt (<) (map fst (entries pt))"
    by (simp add: tables_sorted_def)
  from pt e have held: "frame_of s (t, p) = Some (unat (frameNumber e))"
    by (simp add: frame_of_def pte_at_def)
  with ok have "unat (frameNumber e) < TOTAL_PHYSICAL_FRAMES"
    unfolding frames_ok_def by blast
  then have fr: "snd (freeFrame (frameAllocationMap s) (frameNumber e))
                   = unset_bit (unat (frameNumber e)) (frameAllocationMap s)"
    by (simp add: freeFrame_def)
  let ?s' = "s\<lparr>frameAllocationMap := unset_bit (unat (frameNumber e)) (frameAllocationMap s),
       pageTables := (pageTables s)(t \<mapsto> pt\<lparr>entries := entries_erase p (entries pt)\<rparr>),
       totalAllocatedPages := totalAllocatedPages s - 1\<rparr>"
  from pt e fr have s': "snd (freePage s t p) = ?s'"
    by (simp add: freePage_def)
  have fo: "frame_of ?s' = (frame_of s)((t, p) := None)"
    using frame_of_erase [OF pt sorted, of ?s' p] by simp
  from frames_ok_free [OF ok held]
  have "frames_ok (frameAllocationMap ?s') (frame_of ?s')"
    by (simp add: fo)
  moreover from sorted have "sorted_wrt (<) (map fst (entries_erase p (entries pt)))"
    by (rule sorted_entries_erase)
  then have "tables_sorted ?s'"
    using srt by (simp add: tables_sorted_def)
  ultimately show ?thesis
    by (simp only: s' mm_inv_def)
qed

text \<open>Rewriting an entry in place, with the same frame number and present flag.\<close>

lemma mm_inv_touch:
  assumes "mm_inv s" and "pageTables s t = Some pt" and "map_of (entries pt) p = Some e"
    and "present e' = present e" and "frameNumber e' = frameNumber e"
    and "pageTables s' = (pageTables s)(t \<mapsto> pt\<lparr>entries := entries_put p e' (entries pt)\<rparr>)"
    and "frameAllocationMap s' = frameAllocationMap s"
  shows "mm_inv s'"
proof -
  from assms(1) have ok: "frames_ok (frameAllocationMap s) (frame_of s)"
    and srt: "tables_sorted s"
    by (simp_all add: mm_inv_def)
  from assms(2,3) have "frame_of s (t, p) = (if present e then Some (unat (frameNumber e)) else None)"
    by (simp add: frame_of_def pte_at_def)
  with frame_of_put [OF assms(2,6)] assms(4,5) have "frame_of s' = frame_of s"
    by (simp add: fun_upd_idem)
  with ok assms(7) have "frames_ok (frameAllocationMap s') (frame_of s')"
    by simp
  moreover from srt assms(2) have "sorted_wrt (<) (map fst (entries pt))"
    by (simp add: tables_sorted_def)
  then have "sorted_wrt (<) (map fst (entries_put p e' (entries pt)))"
    by (rule sorted_entries_put)
  with srt assms(6) have "tables_sorted s'"
    by (simp add: tables_sorted_def)
  ultimately show ?thesis
    by (simp add: mm_inv_def)
qed

lemma mm_inv_translateAddress:
  assumes "mm_inv s"
  shows "mm_inv (snd (translateAddress s t p))"
proof (cases "fst (translateAddress s t p)")
  case None
  then have "snd (translateAddress s t p) = s"
    by (auto simp: translateAddress_def split: option.splits if_splits)
  with assms show ?thesis
    by simp
next
  case (Some f)
  then obtain pt e where pt: "pageTables s t = Some pt"
    and e: "map_of (entries pt) p = Some e" "present e"
    by (auto simp: translateAddress_def split: option.splits if_splits)
  show ?thesis
    by (rule mm_inv_touch [OF assms pt e(1), of "e\<lparr>accessed := True\<rparr>"])
       (simp_all add: translateAddress_def pt e)
qed

lemma mm_inv_setProtection:
  assumes "mm_inv s"
  shows "mm_inv (snd (setProtection s t p prot))"
proof (cases "fst (setProtection s t p prot)")
  case False
  then have "snd (setProtection s t p prot) = s"
    by (auto simp: setProtection_def split: option.splits if_splits)
  with assms show ?thesis
    by simp
next
  case True
  then obtain pt e where pt: "pageTables s t = Some pt"
    and e: "map_of (entries pt) p = Some e"
    by (auto simp: setProtection_def split: option.splits if_splits)
  show ?thesis
    by (rule mm_inv_touch [OF assms pt e, of "e\<lparr>protection := prot\<rparr>"])
       (simp_all add: setProtection_def pt e)
qed

lemma mm_inv_handlePageFault:
  assumes "mm_inv s"
  shows "mm_inv (snd (handlePageFault s t p))"
proof -
  have "mm_inv (s\<lparr>pageFaultCount := pageFaultCount s + 1\<rparr>)"
    by (rule mm_inv_same [OF assms]) simp_all
  then have "mm_inv (snd (allocatePage (s\<lparr>pageFaultCount := pageFaultCount s + 1\<rparr>) t p ReadWrite))"
    by (rule mm_inv_allocatePage)
  then show ?thesis
    by (cases "allocatePage (s\<lparr>pageFaultCount := pageFaultCount s + 1\<rparr>) t p ReadWrite")
       (simp add: handlePageFault_def)
qed

lemma mm_inv_step:
  assumes "mm_inv s"
  shows "mm_inv (mm_step s c)"
  using assms
  by (cases c)
     (simp_all add: mm_inv_createAddressSpace mm_inv_destroyAddressSpace mm_inv_allocatePage
                    mm_inv_freePage mm_inv_translateAddress mm_inv_handlePageFault
                    mm_inv_setProtection)

lemma mm_inv_foldl:
  assumes "mm_inv s"
  shows "mm_inv (foldl mm_step s cs)"
  using assms
proof (induction cs arbitrary: s)
  case Nil
  then show ?case by simp
next
  case (Cons c cs)
  from Cons.prems have "mm_inv (mm_step s c)"
    by (rule mm_inv_step)
  then show ?case
    by (simp add: Cons.IH)
qed

lemma mm_inv_run: "mm_inv (mm_run cs)"
  unfolding mm_run_def by (rule mm_inv_foldl [OF mm_inv_new])

lemma references_frame_of: "references s f tp = (frame_of s tp = Some (unat f))"
  by (auto simp: references_def frame_of_def word_unat_eq_iff split: option.splits)

text \<open>
  C3. After any sequence of calls of the eight operations on a new memory manager,
  the bit of frame \<open>f\<close> is set in the frame allocation map if and only if exactly one
  page-table entry, over all page tables, is present with frame number \<open>f\<close>.
\<close>

theorem C3_frame_bit_iff_one_present_entry:
  "bit (frameAllocationMap (mm_run cs)) (unat f) = (\<exists>!tp. references (mm_run cs) f tp)"
proof -
  let ?s = "mm_run cs"
  have "frames_ok (frameAllocationMap ?s) (frame_of ?s)"
    using mm_inv_run [of cs] by (simp add: mm_inv_def)
  then have
    a: "\<And>x j. frame_of ?s x = Some j \<Longrightarrow> bit (frameAllocationMap ?s) j" and
    b: "\<And>x y j. frame_of ?s x = Some j \<Longrightarrow> frame_of ?s y = Some j \<Longrightarrow> x = y" and
    c: "\<And>i. bit (frameAllocationMap ?s) i \<Longrightarrow> \<exists>x. frame_of ?s x = Some i"
    unfolding frames_ok_def by blast+
  show ?thesis
  proof
    assume "bit (frameAllocationMap ?s) (unat f)"
    from c [OF this] obtain x where "frame_of ?s x = Some (unat f)"
      by blast
    with b show "\<exists>!tp. references ?s f tp"
      by (auto simp: references_frame_of)
  next
    assume "\<exists>!tp. references ?s f tp"
    then obtain x where "frame_of ?s x = Some (unat f)"
      by (auto simp: references_frame_of)
    then show "bit (frameAllocationMap ?s) (unat f)"
      by (rule a)
  qed
qed

section \<open>Properties of the heap allocator\<close>

lemma HeapAllocator_new_64: "allocate (HeapAllocator_new 64) 8 = Some (Some 32, C8_full)"
  by (simp add: allocate_def HeapAllocator_new_def C8_full_def round8_def findFreeBlock.simps
                HEADER_SIZE_def Let_def)

text \<open>A failed \<^verbatim>\<open>allocate\<close> changes nothing.\<close>

lemma allocate_null_unchanged:
  assumes "allocate h n = Some (None, h1)"
  shows "h1 = h"
  using assms
  by (auto simp: allocate_def Let_def split: if_splits option.splits)

text \<open>
  C8. \<^verbatim>\<open>reallocate(ptr, newSize)\<close> with a non-null pointer, a size that is not 0 and
  is above the block's size: if the allocation of the new block returns null, so does
  \<^verbatim>\<open>reallocate\<close>, and the allocator is exactly as it was: the old block's header (still
  occupied), every payload byte and the accounting.
\<close>

theorem C8_reallocate_failure_keeps_block:
  assumes "newSize \<noteq> 0" and "bsize (headers h (p - HEADER_SIZE)) < newSize"
    and "allocate h newSize = Some (None, h1)"
  shows "reallocate h (Some p) newSize junk = Some (None, h) \<and>
         isFree (headers (snd (the (reallocate h (Some p) newSize junk))) (p - HEADER_SIZE))
           = isFree (headers h (p - HEADER_SIZE)) \<and>
         bytes (snd (the (reallocate h (Some p) newSize junk))) = bytes h \<and>
         allocatedBytes (snd (the (reallocate h (Some p) newSize junk))) = allocatedBytes h"
proof -
  from assms(3) have "h1 = h"
    by (rule allocate_null_unchanged)
  with assms have "reallocate h (Some p) newSize junk = Some (None, h)"
    by (simp add: reallocate_def Let_def not_le [symmetric])
  then show ?thesis
    by simp
qed

theorem C8_reallocate_failure_keeps_block_witness:
  "allocate C8_full 100 = Some (None, C8_full) \<and>
   reallocate C8_full (Some 32) 100 (\<lambda>a. headers C8_full 0) = Some (None, C8_full) \<and>
   isFree (headers (snd (the (reallocate C8_full (Some 32) 100 (\<lambda>a. headers C8_full 0)))) 0)
     = False \<and>
   allocatedBytes (snd (the (reallocate C8_full (Some 32) 100 (\<lambda>a. headers C8_full 0)))) = 32"
proof -
  have a: "(100 :: size_t) \<noteq> 0"
    by simp
  have b: "bsize (headers C8_full (32 - HEADER_SIZE)) < 100"
    by (simp add: C8_full_def HEADER_SIZE_def)
  have c: "allocate C8_full 100 = Some (None, C8_full)"
    by (simp add: allocate_def C8_full_def round8_def findFreeBlock.simps Let_def)
  from C8_reallocate_failure_keeps_block [OF a b c, of "\<lambda>a. headers C8_full 0"] c
  show ?thesis
    by (simp add: C8_full_def HEADER_SIZE_def)
qed

text \<open>
  The copy of \<^verbatim>\<open>reallocate\<close> can leave the new block. On a new heap of 1024 bytes
  with one block of 16 bytes allocated (payload at 32), \<^verbatim>\<open>reallocate(ptr, SIZE_MAX)\<close>
  rounds the size to 0, gets a block of 0 bytes whose payload address 80 is the
  address of the header behind it, and copies the 16 old bytes over that header.
\<close>

lemma reallocate_overruns_new_block:
  "allocate C4_roomy 16 = Some (Some 32, h) \<Longrightarrow>
     fst (the (reallocate h (Some 32) 18446744073709551615 junk)) = Some 80 \<and>
     bsize (headers (snd (the (allocate h 18446744073709551615))) 48) = 0 \<and>
     bnext (headers (snd (the (allocate h 18446744073709551615))) 48) = Some 80 \<and>
     headers (snd (the (reallocate h (Some 32) 18446744073709551615 junk))) 80 = junk 80"
proof -
  assume al: "allocate C4_roomy 16 = Some (Some 32, h)"
  have r16: "round8 16 = 16" and r0: "round8 18446744073709551615 = 0"
    by (simp_all add: round8_def)
  from al have h: "h = snd (the (allocate C4_roomy 16))"
    by simp
  have h0: "headers h 0 = \<lparr>bsize = 16, isFree = False, bnext = Some 48, bprev = None\<rparr>"
    and h48: "headers h 48 = \<lparr>bsize = 944, isFree = True, bnext = None, bprev = Some 0\<rparr>"
    and fl: "freeList h = Some 0"
    unfolding h
    by (simp_all add: allocate_def r16 C4_roomy_def HeapAllocator_new_def HEADER_SIZE_def
                      findFreeBlock.simps splitBlock_def Let_def)
  have ff: "findFreeBlock (headers h) (freeList h) 0 = Some (Some 48)"
    by (simp add: fl findFreeBlock.simps h0 h48)
  have big: "(0 :: size_t) + of_nat HEADER_SIZE + 8 < 944"
    by (simp add: HEADER_SIZE_def)
  define h1 where "h1 = snd (the (allocate h 18446744073709551615))"
  have al1: "allocate h 18446744073709551615 = Some (Some 80, h1)"
    unfolding h1_def using big
    by (simp add: allocate_def r0 ff h48 Let_def HEADER_SIZE_def)
  have s48: "bsize (headers h1 48) = 0 \<and> bnext (headers h1 48) = Some 80 \<and>
             \<not> isFree (headers h1 48)"
    unfolding h1_def using big
    by (simp add: allocate_def r0 ff h48 Let_def splitBlock_def HEADER_SIZE_def)
  have s0: "headers h1 0 = headers h 0"
    unfolding h1_def using big
    by (simp add: allocate_def r0 ff h48 Let_def splitBlock_def HEADER_SIZE_def)
  have ge: "\<not> (18446744073709551615 :: size_t) \<le> 16"
    by simp
  have re: "reallocate h (Some 32) 18446744073709551615 junk =
              Some (Some 80, free (h1\<lparr>bytes := memcpy (bytes h1) 80 32 16,
                                       headers := clobber (headers h1) 80 16 junk\<rparr>) (Some 32))"
    using ge by (simp add: reallocate_def al1 s0 h0 Let_def HEADER_SIZE_def)
  have c0: "clobber (headers h1) 80 16 junk 0 = headers h 0"
    and c80: "clobber (headers h1) 80 16 junk 80 = junk 80"
    and c48: "clobber (headers h1) 80 16 junk 48 = headers h1 48"
    by (simp_all add: clobber_def HEADER_SIZE_def s0)
  have "headers (free (h1\<lparr>bytes := memcpy (bytes h1) 80 32 16,
                           headers := clobber (headers h1) 80 16 junk\<rparr>) (Some 32)) 80 = junk 80"
    using s48
    by (simp add: free_def Let_def HEADER_SIZE_def c0 c80 c48 h0 coalesce_def coalesce_next_def
                  coalesce_prev_def)
  with re s48 show ?thesis
    by (simp add: h1_def)
qed

text \<open>The block \<^verbatim>\<open>findFreeBlock\<close> returns is free and large enough.\<close>

lemma findFreeBlock_result:
  assumes "findFreeBlock hs current n = Some r"
  shows "\<forall>b. r = Some b \<longrightarrow> isFree (hs b) \<and> n \<le> bsize (hs b)"
proof -
  let ?Q = "\<lambda>(hs :: nat \<Rightarrow> BlockHeader) (current :: nat option) (n :: size_t) r.
              \<forall>b. r = Some b \<longrightarrow> isFree (hs b) \<and> n \<le> bsize (hs b)"
  have step: "?Q hs current n r"
    if IH: "\<And>hs current n r. walk hs current n = Some r \<Longrightarrow> ?Q hs current n r"
      and body: "(case current of
                    None \<Rightarrow> Some None
                  | Some c \<Rightarrow>
                      if isFree (hs c) \<and> n \<le> bsize (hs c) then Some (Some c)
                      else walk hs (bnext (hs c)) n) = Some r"
    for walk hs current n r
  proof (cases current)
    case None
    with body show ?thesis
      by simp
  next
    case (Some c)
    show ?thesis
    proof (cases "isFree (hs c) \<and> n \<le> bsize (hs c)")
      case True
      with body Some show ?thesis
        by auto
    next
      case False
      with body Some have "walk hs (bnext (hs c)) n = Some r"
        by auto
      then show ?thesis
        by (rule IH)
    qed
  qed
  show ?thesis
    by (rule findFreeBlock.raw_induct [where P = ?Q, OF step assms])
qed

lemma findFreeBlock_found:
  assumes "findFreeBlock hs current n = Some (Some b)"
  shows "isFree (hs b) \<and> n \<le> bsize (hs b)"
  using findFreeBlock_result [OF assms] by simp

text \<open>
  Where the rounded request plus \<^verbatim>\<open>sizeof(BlockHeader) + 8\<close> does not wrap, the
  comparison of \<^verbatim>\<open>allocate\<close> is the comparison of the numbers.
\<close>

lemma split_test_nat:
  fixes n s :: size_t
  assumes "unat n + HEADER_SIZE + 8 < 2 ^ 64"
  shows "(n + of_nat HEADER_SIZE + 8 < s) = (unat n + HEADER_SIZE + 8 < unat s)"
proof -
  have "n + of_nat HEADER_SIZE + 8 = n + 40"
    by (simp add: HEADER_SIZE_def)
  moreover have "unat (n + 40) = unat n + unat (40 :: size_t)"
    by (rule unat_add_lem [THEN iffD1]) (use assms in \<open>simp add: HEADER_SIZE_def\<close>)
  ultimately have "unat (n + of_nat HEADER_SIZE + 8) = unat n + HEADER_SIZE + 8"
    by (simp only: HEADER_SIZE_def) simp
  then show ?thesis
    by (simp only: word_less_nat_alt)
qed




end
